theory Spec2Isabelle
  imports Main "HOL-Library.Char_ord" "HOL-Library.List_Lexorder"
begin

section \<open>Python dictionaries\<close>

text \<open>
  A Python \<^verbatim>\<open>dict\<close> keeps its keys in insertion order, and the order is visible to the
  program (iteration over \<^verbatim>\<open>neighbors\<close> in the breadth-first search, iteration over the
  interaction tables). A dictionary is therefore an association list: a lookup reads the
  first entry of a key, a store overwrites the entry of a key in place or appends a new
  entry at the end.
\<close>

type_synonym ('k, 'v) dict = "('k \<times> 'v) list"

definition dict_get :: "('k, 'v) dict \<Rightarrow> 'k \<Rightarrow> 'v option" where
  "dict_get d k = map_of d k"

definition dict_keys :: "('k, 'v) dict \<Rightarrow> 'k list" where
  "dict_keys d = map fst d"

definition dict_has :: "('k, 'v) dict \<Rightarrow> 'k \<Rightarrow> bool" where
  "dict_has d k = (k \<in> set (dict_keys d))"

fun dict_set :: "('k, 'v) dict \<Rightarrow> 'k \<Rightarrow> 'v \<Rightarrow> ('k, 'v) dict" where
  "dict_set [] k v = [(k, v)]"
| "dict_set ((k', v') # d) k v =
     (if k' = k then (k, v) # d else (k', v') # dict_set d k v)"

lemma dict_get_in_set: "dict_get d k = Some v \<Longrightarrow> (k, v) \<in> set d"
  by (simp add: dict_get_def map_of_SomeD)

section \<open>GraphConstruct.py: the graph model\<close>

datatype error = ValueError | KeyError | UnboundLocalError

text \<open>
  \<^verbatim>\<open>class Node\<close>. Weights and degrees are Python integers. The popularity scores are
  numbers read from JSON that the operations below only store, so their type is a parameter.
\<close>

record 's Node =
  name :: string
  neighbors :: "(string, int) dict"
  degree :: int
  weighted_degree :: int
  pop_scores :: "'s list"
  effective_pop_scores :: "'s list"

definition Node_init :: "string \<Rightarrow> 's Node" where
  "Node_init nm =
     \<lparr>name = nm, neighbors = [], degree = 0, weighted_degree = 0,
      pop_scores = [], effective_pop_scores = []\<rparr>"

definition add_neighbor :: "'s Node \<Rightarrow> string \<Rightarrow> int \<Rightarrow> 's Node" where
  "add_neighbor n neighbor weight =
     (case dict_get (neighbors n) neighbor of
        Some old \<Rightarrow>
          n\<lparr>neighbors := dict_set (neighbors n) neighbor (old + weight),
            weighted_degree := weighted_degree n + weight\<rparr>
      | None \<Rightarrow>
          n\<lparr>neighbors := dict_set (neighbors n) neighbor weight,
            degree := degree n + 1,
            weighted_degree := weighted_degree n + weight\<rparr>)"

definition add_popularity_score :: "'s Node \<Rightarrow> 's option \<Rightarrow> 's Node" where
  "add_popularity_score n score =
     (case score of None \<Rightarrow> n | Some s \<Rightarrow> n\<lparr>pop_scores := pop_scores n @ [s]\<rparr>)"

definition add_effective_popularity_score :: "'s Node \<Rightarrow> 's option \<Rightarrow> 's Node" where
  "add_effective_popularity_score n score =
     (case score of None \<Rightarrow> n
      | Some s \<Rightarrow> n\<lparr>effective_pop_scores := effective_pop_scores n @ [s]\<rparr>)"

text \<open>\<^verbatim>\<open>class Graph\<close>: its only attribute is the dictionary \<^verbatim>\<open>nodes\<close>.\<close>

record 's Graph =
  nodes :: "(string, 's Node) dict"

definition Graph_init :: "'s Graph" where
  "Graph_init = \<lparr>nodes = []\<rparr>"

definition add_node :: "'s Graph \<Rightarrow> string \<Rightarrow> 's Graph" where
  "add_node g nm =
     (if dict_has (nodes g) nm then g
      else g\<lparr>nodes := dict_set (nodes g) nm (Node_init nm)\<rparr>)"

text \<open>
  \<^verbatim>\<open>self.nodes[k].m(...)\<close> mutates the node object stored under \<open>k\<close>. In \<^verbatim>\<open>add_edge\<close> and in
  the popularity operations the key has just been created by \<^verbatim>\<open>add_node\<close>, so the lookup
  cannot raise there (lemma \<open>add_node_has\<close>); the model leaves the graph alone on a missing
  key.
\<close>

definition update_node :: "'s Graph \<Rightarrow> string \<Rightarrow> ('s Node \<Rightarrow> 's Node) \<Rightarrow> 's Graph" where
  "update_node g k f =
     (case dict_get (nodes g) k of
        None \<Rightarrow> g
      | Some n \<Rightarrow> g\<lparr>nodes := dict_set (nodes g) k (f n)\<rparr>)"

definition add_edge :: "'s Graph \<Rightarrow> string \<Rightarrow> string \<Rightarrow> int \<Rightarrow> 's Graph" where
  "add_edge g a b weight =
     (let g1 = add_node g a;
          g2 = add_node g1 b;
          g3 = update_node g2 a (\<lambda>n. add_neighbor n b weight)
      in update_node g3 b (\<lambda>n. add_neighbor n a weight))"

text \<open>
  \<^verbatim>\<open>a, b = pair.split("-")\<close> unpacks exactly two parts, so the key must hold exactly one
  hyphen; otherwise the unpacking raises \<^verbatim>\<open>ValueError\<close>.
\<close>

definition split_pair :: "string \<Rightarrow> (string \<times> string) option" where
  "split_pair pair =
     (if count_list pair (CHR ''-'') = 1
      then Some (takeWhile (\<lambda>c. c \<noteq> CHR ''-'') pair,
                 tl (dropWhile (\<lambda>c. c \<noteq> CHR ''-'') pair))
      else None)"

text \<open>
  The inner loop of \<^verbatim>\<open>build_graph_from_interactions\<close> and of \<^verbatim>\<open>build_graph_by_seasons\<close>.
  The graph is mutated in place, so a raise leaves the edges added so far: the result is the
  graph after the loop together with the exception, if any.
\<close>

fun add_interactions ::
  "'s Graph \<Rightarrow> (string, int) dict \<Rightarrow> 's Graph \<times> error option" where
  "add_interactions g [] = (g, None)"
| "add_interactions g ((pair, weight) # rest) =
     (case split_pair pair of
        None \<Rightarrow> (g, Some ValueError)
      | Some (a, b) \<Rightarrow> add_interactions (add_edge g a b weight) rest)"

fun build_graph_from_interactions ::
  "'s Graph \<Rightarrow> (string, (string, int) dict) dict \<Rightarrow> 's Graph \<times> error option" where
  "build_graph_from_interactions g [] = (g, None)"
| "build_graph_from_interactions g ((epi, interactions) # rest) =
     (case add_interactions g interactions of
        (g', Some e) \<Rightarrow> (g', Some e)
      | (g', None) \<Rightarrow> build_graph_from_interactions g' rest)"

fun add_scores :: "'s Graph \<Rightarrow> string list \<Rightarrow> 's option \<Rightarrow> 's Graph" where
  "add_scores g [] score = g"
| "add_scores g (char # chars) score =
     add_scores (update_node (add_node g char) char (\<lambda>n. add_popularity_score n score))
       chars score"

fun add_popularity_by_presence ::
  "'s Graph \<Rightarrow> (string, string list) dict \<Rightarrow> (string, 's option) dict \<Rightarrow> 's Graph" where
  "add_popularity_by_presence g [] episode_popularity = g"
| "add_popularity_by_presence g ((epi_id, chars) # rest) episode_popularity =
     (case dict_get episode_popularity epi_id of
        Some (Some s) \<Rightarrow>
          add_popularity_by_presence (add_scores g chars (Some s)) rest episode_popularity
      | _ \<Rightarrow> add_popularity_by_presence g rest episode_popularity)"

text \<open>
  \<^verbatim>\<open>sorted(..., key=lambda x: x[1], reverse=True)\<close> is a stable sort by descending count;
  a slice \<^verbatim>\<open>xs[:k]\<close> with negative \<open>k\<close> drops the last \<open>-k\<close> elements.
\<close>

definition py_take :: "int \<Rightarrow> 'a list \<Rightarrow> 'a list" where
  "py_take k xs = (if 0 \<le> k then take (nat k) xs else take (length xs - nat (- k)) xs)"

fun add_effective_scores :: "'s Graph \<Rightarrow> string list \<Rightarrow> 's option \<Rightarrow> 's Graph" where
  "add_effective_scores g [] score = g"
| "add_effective_scores g (char # chars) score =
     add_effective_scores
       (update_node (add_node g char) char (\<lambda>n. add_effective_popularity_score n score))
       chars score"

fun add_popularity_by_wordcount ::
  "'s Graph \<Rightarrow> (string, (string, int) dict) dict \<Rightarrow> (string, 's option) dict \<Rightarrow> int
     \<Rightarrow> 's Graph" where
  "add_popularity_by_wordcount g [] episode_popularity top_k = g"
| "add_popularity_by_wordcount g ((episode_id, wc_dict) # rest) episode_popularity top_k =
     (case dict_get episode_popularity episode_id of
        Some (Some s) \<Rightarrow>
          (let sorted_chars = sort_key (\<lambda>x. - snd x) wc_dict;
               top_chars = map fst (py_take top_k sorted_chars)
           in add_popularity_by_wordcount (add_effective_scores g top_chars (Some s))
                rest episode_popularity top_k)
      | _ \<Rightarrow> add_popularity_by_wordcount g rest episode_popularity top_k)"

text \<open>The mutating operations of the graph, and a session as a sequence of them.\<close>

datatype 's mutation =
    Add_node string
  | Add_edge string string int
  | Build_graph_from_interactions "(string, (string, int) dict) dict"
  | Add_popularity_by_presence "(string, string list) dict" "(string, 's option) dict"
  | Add_popularity_by_wordcount "(string, (string, int) dict) dict"
      "(string, 's option) dict" int

fun mutate :: "'s Graph \<Rightarrow> 's mutation \<Rightarrow> 's Graph" where
  "mutate g (Add_node nm) = add_node g nm"
| "mutate g (Add_edge a b w) = add_edge g a b w"
| "mutate g (Build_graph_from_interactions ei) = fst (build_graph_from_interactions g ei)"
| "mutate g (Add_popularity_by_presence ec ep) = add_popularity_by_presence g ec ep"
| "mutate g (Add_popularity_by_wordcount ew ep k) = add_popularity_by_wordcount g ew ep k"

definition run_mutations :: "'s mutation list \<Rightarrow> 's Graph" where
  "run_mutations ms = fold (\<lambda>m g. mutate g m) ms Graph_init"

text \<open>What the claims read off a graph.\<close>

definition node_ok :: "'s Node \<Rightarrow> bool" where
  "node_ok n \<longleftrightarrow>
     weighted_degree n = sum_list (map snd (neighbors n)) \<and>
     degree n = int (length (neighbors n))"

definition adjacency :: "'s Graph \<Rightarrow> string \<Rightarrow> string \<Rightarrow> int option" where
  "adjacency g a b =
     (case dict_get (nodes g) a of None \<Rightarrow> None | Some n \<Rightarrow> dict_get (neighbors n) b)"

definition degree_of :: "'s Graph \<Rightarrow> string \<Rightarrow> int" where
  "degree_of g a = (case dict_get (nodes g) a of None \<Rightarrow> 0 | Some n \<Rightarrow> degree n)"

definition weighted_degree_of :: "'s Graph \<Rightarrow> string \<Rightarrow> int" where
  "weighted_degree_of g a =
     (case dict_get (nodes g) a of None \<Rightarrow> 0 | Some n \<Rightarrow> weighted_degree n)"

definition node_or_new :: "'s Graph \<Rightarrow> string \<Rightarrow> 's Node" where
  "node_or_new g k = (case dict_get (nodes g) k of None \<Rightarrow> Node_init k | Some n \<Rightarrow> n)"

definition weight_or_0 :: "int option \<Rightarrow> int" where
  "weight_or_0 x = (case x of None \<Rightarrow> 0 | Some w \<Rightarrow> w)"

definition graph_ok :: "'s Graph \<Rightarrow> bool" where
  "graph_ok g \<longleftrightarrow> (\<forall>(k, n) \<in> set (nodes g). node_ok n)"

subsection \<open>The season filter\<close>

text \<open>
  \<^verbatim>\<open>re.search(r"S(\d+)E", episode_id)\<close>: the leftmost \<^verbatim>\<open>S\<close> that is followed by a non-empty run
  of digits and then \<^verbatim>\<open>E\<close>. The run is the maximal one: a shorter run would be followed by
  a digit, not by \<^verbatim>\<open>E\<close>. The result is group 1, the digits. Digits are the ASCII digits.
\<close>

definition is_digit :: "char \<Rightarrow> bool" where
  "is_digit c \<longleftrightarrow> c \<in> set ''0123456789''"

fun season_search :: "string \<Rightarrow> string option" where
  "season_search [] = None"
| "season_search (c # cs) =
     (if c = CHR ''S'' \<and> takeWhile is_digit cs \<noteq> [] \<and>
         (case dropWhile is_digit cs of [] \<Rightarrow> False | d # _ \<Rightarrow> d = CHR ''E'')
      then Some (takeWhile is_digit cs)
      else season_search cs)"

definition digit_value :: "char \<Rightarrow> int" where
  "digit_value c = int (length (takeWhile (\<lambda>d. d \<noteq> c) ''0123456789''))"

definition py_int :: "string \<Rightarrow> int" where
  "py_int ds = foldl (\<lambda>n c. 10 * n + digit_value c) 0 ds"

definition season_num :: "string \<Rightarrow> int option" where
  "season_num episode_id = map_option py_int (season_search episode_id)"








subsection \<open>Shortest path\<close>

text \<open>
  \<^verbatim>\<open>shortest_path\<close>: a breadth-first search with a queue of (node, path) pairs and a set of
  visited names. \<open>visit\<close> is the body of the inner \<^verbatim>\<open>for\<close> loop over the neighbors of the
  current node, in the order of the \<^verbatim>\<open>neighbors\<close> dictionary. \<^verbatim>\<open>self.nodes[curr]\<close> raises
  \<^verbatim>\<open>KeyError\<close> when a dequeued name is not a node. The variables \<open>cur\<close> and \<open>finish\<close> are the
  source's \<^verbatim>\<open>curr\<close> and \<^verbatim>\<open>end\<close>.
\<close>

definition visit ::
  "string list \<Rightarrow> string \<Rightarrow> (string \<times> string list) list \<times> string set
     \<Rightarrow> (string \<times> string list) list \<times> string set" where
  "visit path neighbor st =
     (case st of (queue, visited) \<Rightarrow>
        if neighbor \<in> visited then (queue, visited)
        else (queue @ [(neighbor, path @ [neighbor])], insert neighbor visited))"

definition graph_names :: "'s Graph \<Rightarrow> string set" where
  "graph_names g =
     set (dict_keys (nodes g)) \<union> (\<Union>kn \<in> set (nodes g). set (dict_keys (neighbors (snd kn))))"

fun fresh :: "string set \<Rightarrow> string list \<Rightarrow> string list" where
  "fresh v [] = []"
| "fresh v (w # ws) = (if w \<in> v then fresh v ws else w # fresh (insert w v) ws)"

lemma fold_visit:
  "fold (visit path) ns (q, v) = (q @ map (\<lambda>w. (w, path @ [w])) (fresh v ns), v \<union> set ns)"
  by (induction ns arbitrary: q v) (auto simp: visit_def)

lemma set_fresh: "set (fresh v ns) = set ns - v"
  by (induction ns arbitrary: v) auto

lemma distinct_fresh: "distinct (fresh v ns)"
  by (induction ns arbitrary: v) (auto simp: set_fresh)

lemma finite_graph_names: "finite (graph_names g)"
  by (simp add: graph_names_def)

lemma neighbors_in_graph_names:
  "dict_get (nodes g) k = Some n \<Longrightarrow> set (dict_keys (neighbors n)) \<subseteq> graph_names g"
  by (force simp: graph_names_def dest: dict_get_in_set)

lemma bfs_step_decreases:
  assumes n: "dict_get (nodes g) cur = Some n"
    and r: "fold (visit path) (dict_keys (neighbors n)) (queue, visited) = (queue', visited')"
  shows "((g, finish, queue', visited'), (g, finish, (cur, path) # queue, visited))
          \<in> (\<lambda>(g, f, q, v). card (graph_names g - v)) <*mlex*>
             measure (\<lambda>(g, f, q, v). length q)"
proof -
  let ?ns = "dict_keys (neighbors n)"
  from r have q': "queue' = queue @ map (\<lambda>w. (w, path @ [w])) (fresh visited ?ns)"
    and v': "visited' = visited \<union> set ?ns"
    by (simp_all add: fold_visit)
  have sub: "set ?ns \<subseteq> graph_names g"
    by (rule neighbors_in_graph_names [OF n])
  show ?thesis
  proof (cases "set ?ns \<subseteq> visited")
    case True
    then have "set (fresh visited ?ns) = {}"
      unfolding set_fresh by auto
    then have "fresh visited ?ns = []" by simp
    with q' have "queue' = queue" by simp
    moreover from True v' have "visited' = visited" by auto
    ultimately show ?thesis by (simp add: mlex_iff)
  next
    case False
    then obtain w where w: "w \<in> set ?ns" "w \<notin> visited" by auto
    with sub v' have "graph_names g - visited' \<subset> graph_names g - visited" by auto
    then have "card (graph_names g - visited') < card (graph_names g - visited)"
      by (intro psubset_card_mono) (simp_all add: finite_graph_names)
    then show ?thesis by (simp add: mlex_iff)
  qed
qed

function bfs ::
  "'s Graph \<Rightarrow> string \<Rightarrow> (string \<times> string list) list \<Rightarrow> string set
     \<Rightarrow> error + string list option" where
  "bfs g finish [] visited = Inr None"
| "bfs g finish ((cur, path) # queue) visited =
     (if cur = finish then Inr (Some path)
      else (case dict_get (nodes g) cur of
              None \<Rightarrow> Inl KeyError
            | Some n \<Rightarrow>
                (case fold (visit path) (dict_keys (neighbors n)) (queue, visited) of
                   (queue', visited') \<Rightarrow> bfs g finish queue' visited')))"
  by pat_completeness auto

termination
  apply (relation "(\<lambda>(g, f, q, v). card (graph_names g - v)) <*mlex*>
                 measure (\<lambda>(g, f, q, v). length q)")
   apply (rule wf_mlex, simp)
  apply (rule bfs_step_decreases, assumption)
  apply simp
  done

definition shortest_path :: "'s Graph \<Rightarrow> string \<Rightarrow> string \<Rightarrow> error + string list option" where
  "shortest_path g start finish =
     (if \<not> dict_has (nodes g) start \<or> \<not> dict_has (nodes g) finish then Inr None
      else bfs g finish [(start, [start])] {start})"

text \<open>Paths of the adjacency structure: consecutive names are adjacent.\<close>

definition succs :: "'s Graph \<Rightarrow> string \<Rightarrow> string list" where
  "succs g u = (case dict_get (nodes g) u of None \<Rightarrow> [] | Some n \<Rightarrow> dict_keys (neighbors n))"

fun is_path :: "'s Graph \<Rightarrow> string list \<Rightarrow> bool" where
  "is_path g [] = False"
| "is_path g [x] = True"
| "is_path g (x # y # rest) = (y \<in> set (succs g x) \<and> is_path g (y # rest))"

definition path_from_to :: "'s Graph \<Rightarrow> string \<Rightarrow> string \<Rightarrow> string list \<Rightarrow> bool" where
  "path_from_to g s e p \<longleftrightarrow> p \<noteq> [] \<and> hd p = s \<and> last p = e \<and> is_path g p"

definition wf_graph :: "'s Graph \<Rightarrow> bool" where
  "wf_graph g \<longleftrightarrow>
     (\<forall>kn \<in> set (nodes g). \<forall>b \<in> set (dict_keys (neighbors (snd kn))). dict_has (nodes g) b)"

text \<open>
  The invariant of the search, for the correctness proof: \<open>L\<close> records the length of the path
  with which a visited name was enqueued. A visited name that is no longer in the queue has
  been expanded.
\<close>

definition bfs_inv ::
  "'s Graph \<Rightarrow> string \<Rightarrow> string \<Rightarrow> (string \<Rightarrow> nat) \<Rightarrow> (string \<times> string list) list
     \<Rightarrow> string set \<Rightarrow> bool" where
  "bfs_inv g s e L q v \<longleftrightarrow>
     s \<in> v \<and> L s = 1 \<and>
     (\<forall>up \<in> set q. path_from_to g s (fst up) (snd up) \<and> L (fst up) = length (snd up)
         \<and> fst up \<in> v \<and> dict_has (nodes g) (fst up)) \<and>
     sorted (map (\<lambda>up. length (snd up)) q) \<and>
     (\<forall>up \<in> set q. \<forall>up' \<in> set q. length (snd up) \<le> length (snd up') + 1) \<and>
     (\<forall>u \<in> v. u \<notin> fst ` set q \<longrightarrow>
         u \<noteq> e \<and> (\<forall>w \<in> set (succs g u). w \<in> v \<and> L w \<le> L u + 1)
         \<and> (\<forall>up \<in> set q. L u \<le> length (snd up)))"

section \<open>DataProcessing.py: the script parser\<close>

subsection \<open>Python string operations\<close>

text \<open>
  Script text is modelled as a list of characters with code points below 256. Whitespace is
  what \<^verbatim>\<open>str.isspace\<close>, \<^verbatim>\<open>str.strip\<close>, \<^verbatim>\<open>str.split\<close> and the pattern \<^verbatim>\<open>\s\<close> accept in that
  range: tab, line feed, vertical tab, form feed, carriage return, the four separators
  \<open>0x1C\<close> to \<open>0x1F\<close>, the space, the next-line character \<open>0x85\<close> and the no-break space
  \<open>0xA0\<close>.
\<close>

definition is_space :: "char \<Rightarrow> bool" where
  "is_space c \<longleftrightarrow>
     c \<in> set [CHR 0x09, CHR 0x0A, CHR 0x0B, CHR 0x0C, CHR 0x0D,
              CHR 0x1C, CHR 0x1D, CHR 0x1E, CHR 0x1F, CHR 0x20, CHR 0x85, CHR 0xA0]"

text \<open>
  The letters are the ASCII letters, those of the classes \<^verbatim>\<open>[A-Z]\<close> and \<^verbatim>\<open>[a-zA-Z]\<close> of the
  speaker pattern. The case conversions below change these letters only: the parser applies
  \<^verbatim>\<open>upper\<close> and \<^verbatim>\<open>title\<close> to names that the pattern has matched, and compares the result of
  \<^verbatim>\<open>lower\<close> with ASCII words only.
\<close>

definition upper_letters :: string where
  "upper_letters = ''ABCDEFGHIJKLMNOPQRSTUVWXYZ''"

definition lower_letters :: string where
  "lower_letters = ''abcdefghijklmnopqrstuvwxyz''"

definition is_upper :: "char \<Rightarrow> bool" where
  "is_upper c \<longleftrightarrow> c \<in> set upper_letters"

definition is_lower :: "char \<Rightarrow> bool" where
  "is_lower c \<longleftrightarrow> c \<in> set lower_letters"

definition is_alpha :: "char \<Rightarrow> bool" where
  "is_alpha c \<longleftrightarrow> is_upper c \<or> is_lower c"

definition lower_char :: "char \<Rightarrow> char" where
  "lower_char c = (case map_of (zip upper_letters lower_letters) c of None \<Rightarrow> c | Some l \<Rightarrow> l)"

definition upper_char :: "char \<Rightarrow> char" where
  "upper_char c = (case map_of (zip lower_letters upper_letters) c of None \<Rightarrow> c | Some u \<Rightarrow> u)"

definition py_lower :: "string \<Rightarrow> string" where
  "py_lower s = map lower_char s"

definition py_upper :: "string \<Rightarrow> string" where
  "py_upper s = map upper_char s"

definition py_strip :: "string \<Rightarrow> string" where
  "py_strip s = rev (dropWhile is_space (rev (dropWhile is_space s)))"

text \<open>\<^verbatim>\<open>s.split()\<close>: the maximal runs of non-whitespace characters.\<close>

fun split_words :: "string \<Rightarrow> string \<Rightarrow> string list" where
  "split_words cur [] = (if cur = [] then [] else [cur])"
| "split_words cur (c # cs) =
     (if is_space c then (if cur = [] then split_words [] cs else cur # split_words [] cs)
      else split_words (cur @ [c]) cs)"

definition py_split :: "string \<Rightarrow> string list" where
  "py_split s = split_words [] s"

text \<open>\<^verbatim>\<open>s.split(sep)\<close> for a one-character separator: at least one part, empty parts kept.\<close>

fun split_at :: "char \<Rightarrow> string \<Rightarrow> string \<Rightarrow> string list" where
  "split_at sep cur [] = [cur]"
| "split_at sep cur (c # cs) =
     (if c = sep then cur # split_at sep [] cs else split_at sep (cur @ [c]) cs)"

definition py_split_on :: "char \<Rightarrow> string \<Rightarrow> string list" where
  "py_split_on sep s = split_at sep [] s"

text \<open>
  \<^verbatim>\<open>s.title()\<close>: a letter that follows a letter is lower-cased, any other letter is
  upper-cased.
\<close>

fun title_from :: "bool \<Rightarrow> string \<Rightarrow> string" where
  "title_from prev_cased [] = []"
| "title_from prev_cased (c # cs) =
     (if is_alpha c
      then (if prev_cased then lower_char c else upper_char c) # title_from True cs
      else c # title_from False cs)"

definition py_title :: "string \<Rightarrow> string" where
  "py_title s = title_from False s"

definition startswith :: "string \<Rightarrow> string \<Rightarrow> bool" where
  "startswith s p \<longleftrightarrow> take (length p) s = p"

text \<open>\<^verbatim>\<open>p in s\<close> for strings: \<open>p\<close> occurs in \<open>s\<close> as a contiguous substring.\<close>

fun is_substring :: "string \<Rightarrow> string \<Rightarrow> bool" where
  "is_substring p [] = (p = [])"
| "is_substring p (c # cs) = (startswith (c # cs) p \<or> is_substring p cs)"

text \<open>
  \<^verbatim>\<open>text.splitlines()\<close>: the line boundaries below code point 256 are line feed, carriage
  return (with a following line feed as one boundary), vertical tab, form feed, the
  separators \<open>0x1C\<close> to \<open>0x1E\<close> and the next-line character \<open>0x85\<close>; there is no empty last
  line.
\<close>

definition is_linebreak :: "char \<Rightarrow> bool" where
  "is_linebreak c \<longleftrightarrow>
     c \<in> set [CHR 0x0A, CHR 0x0B, CHR 0x0C, CHR 0x0D, CHR 0x1C, CHR 0x1D, CHR 0x1E, CHR 0x85]"

fun split_lines :: "string \<Rightarrow> string \<Rightarrow> string list" where
  "split_lines cur [] = (if cur = [] then [] else [cur])"
| "split_lines cur [c] = (if is_linebreak c then [cur] else [cur @ [c]])"
| "split_lines cur (c # d # cs) =
     (if c = CHR 0x0D \<and> d = CHR 0x0A then cur # split_lines [] cs
      else if is_linebreak c then cur # split_lines [] (d # cs)
      else split_lines (cur @ [c]) (d # cs))"

definition py_splitlines :: "string \<Rightarrow> string list" where
  "py_splitlines text = split_lines [] text"

subsection \<open>The lookup tables\<close>

definition ACTION_WORDS :: "string list" where
  "ACTION_WORDS =
     [''says'', ''shakes'', ''walks'', ''laughs'', ''enters'', ''exits'',
      ''shouts'', ''yells'', ''cries'', ''looks'', ''stares'', ''turns'',
      ''moves'', ''explains'', ''asks'', ''replies'', ''continues'',
      ''tells'', ''answers'', ''runs'', ''steps'', ''smiles'', ''nods'',
      ''starts'', ''storms'', ''coming'', ''starting'', ''raises'',
      ''have'', ''screaming'', ''to'', ''cutting'', ''at'', ''with'',
      ''opens'', ''looking'', ''has'', ''gets'']"

definition GROUP_SPEAKER_PHRASES :: "string list" where
  "GROUP_SPEAKER_PHRASES =
     [''all'', ''everyone'', ''guys'', ''both'',
      ''the guys'', ''girls'', ''girl'', ''boys'', ''boy'',
      ''guy'', ''women'', ''woman'', ''men'', ''man'']"

definition GROUP_INDICATORS :: "string list" where
  "GROUP_INDICATORS =
     [''girls'', ''girl'', ''boys'', ''boy'', ''guys'',
      ''guy'', ''crowd'', ''people'', ''kids'', ''kid'', ''friend'',
      ''friends'', ''family'', ''parents'', ''neighbors'',
      ''roommates'', ''siblings'', ''child'', ''children'',
      ''women'', ''men'', ''directed'', ''extra'', ''everybody'',
      ''everyone'', ''together'', ''written'', ''produced'',
      ''transcribed'', ''hosted'']"

definition GENERIC_ROLES :: "string list" where
  "GENERIC_ROLES =
     [''customer'', ''customers'', ''receptionist'',
      ''receptionists'', ''nurse'', ''waiter'', ''waiters'',
      ''waitress'', ''teacher'', ''clerk'', ''fireman'',
      ''detector'', ''tag'', ''boss'', ''tourist'', ''gambler'',
      ''dealer'', ''attendant'', ''croupier'', ''guard'',
      ''lurker'', ''director'', ''cashier'', ''message'',
      ''critic'', ''interviewer'', ''doctor'', ''tv'', ''story'',
      ''writer'', ''teleplay'', ''note'']"

definition NAME_MAP :: "(string, string) dict" where
  "NAME_MAP =
     [(''Chan'', ''Chandler''), (''CHAN'', ''Chandler''),
      (''Rach'', ''Rachel''), (''RACH'', ''Rachel''), (''Rahcel'', ''Rachel''),
      (''Mnca'', ''Monica''), (''MNCA'', ''Monica''),
      (''Phoe'', ''Phoebe''), (''PHOE'', ''Phoebe'')]"

definition MAIN_CHARS :: "string list" where
  "MAIN_CHARS =
     [''Monica'', ''Rachel'', ''Phoebe'', ''Ross'', ''Chandler'',
      ''Joey'', ''Ursula'', ''Carol'', ''Susan'', ''Janice'']"

subsection \<open>\<^verbatim>\<open>split_multi_speaker\<close>\<close>

text \<open>
  \<^verbatim>\<open>re.sub(r"\band\b|&", ",", raw, flags=re.IGNORECASE)\<close>, scanning from the left. The
  flag \<open>prev_word\<close> says that the character before the position is a word character
  (letter, digit or underscore): \<^verbatim>\<open>\b\<close> before the \<^verbatim>\<open>a\<close> needs it false, \<^verbatim>\<open>\b\<close> after the
  \<^verbatim>\<open>d\<close> needs the next character, if any, not to be a word character.
\<close>

definition is_word_char :: "char \<Rightarrow> bool" where
  "is_word_char c \<longleftrightarrow> is_alpha c \<or> is_digit c \<or> c = CHR ''_''"

fun sub_and :: "bool \<Rightarrow> string \<Rightarrow> string" where
  "sub_and prev_word [] = []"
| "sub_and prev_word (c # cs) =
     (if \<not> prev_word \<and> py_lower (take 3 (c # cs)) = ''and''
         \<and> (case drop 2 cs of [] \<Rightarrow> True | d # _ \<Rightarrow> \<not> is_word_char d)
      then CHR '','' # sub_and True (drop 2 cs)
      else if c = CHR ''&'' then CHR '','' # sub_and False cs
      else c # sub_and (is_word_char c) cs)"

definition split_multi_speaker :: "string \<Rightarrow> string list" where
  "split_multi_speaker raw0 =
     (let raw = py_lower (py_strip raw0) in
      if raw \<in> set GROUP_SPEAKER_PHRASES then []
      else let raw_norm = sub_and False raw
           in map (\<lambda>p. py_title (py_strip p))
                (filter (\<lambda>p. py_strip p \<noteq> []) (py_split_on (CHR '','') raw_norm)))"

subsection \<open>Line patterns\<close>

text \<open>
  Both speaker patterns begin with \<^verbatim>\<open>^([A-Z][a-zA-Z\s.']+)\<close>. The characters that may follow
  the group (a colon or an opening parenthesis, or whitespace and then one of them) are
  either outside the class or whitespace that the greedy group has already taken, so the
  group can only end where the run of class characters ends: \<open>name_run\<close> returns the group
  and the rest of the line.
\<close>

definition apostrophe :: char where
  "apostrophe = CHR 0x27"

definition in_name_class :: "char \<Rightarrow> bool" where
  "in_name_class c \<longleftrightarrow> is_alpha c \<or> is_space c \<or> c = CHR ''.'' \<or> c = apostrophe"

definition name_run :: "string \<Rightarrow> (string \<times> string) option" where
  "name_run line =
     (case line of
        [] \<Rightarrow> None
      | c # cs \<Rightarrow>
          if is_upper c \<and> takeWhile in_name_class cs \<noteq> []
          then Some (c # takeWhile in_name_class cs, dropWhile in_name_class cs)
          else None)"

text \<open>\<^verbatim>\<open>re.match(r"^([A-Z][a-zA-Z\s.']+)(?=[:(])", line)\<close>: group 1, if the pattern matches.\<close>

definition normal_match :: "string \<Rightarrow> string option" where
  "normal_match line =
     (case name_run line of
        None \<Rightarrow> None
      | Some (g1, rest) \<Rightarrow>
          (case rest of
             [] \<Rightarrow> None
           | d # _ \<Rightarrow> if d = CHR '':'' \<or> d = CHR ''('' then Some g1 else None))"

text \<open>
  \<^verbatim>\<open>re.match(r"^([A-Z][a-zA-Z\s.']+)(?:\s*\([^)]*\))?\s*:\s*(.*)$", line)\<close>: groups 1 and 2.
  After the group comes either the colon, or a parenthesised aside up to the first closing
  parenthesis, whitespace and the colon. Group 2 is what follows the colon and the
  whitespace after it.
\<close>

definition normal_match_wc :: "string \<Rightarrow> (string \<times> string) option" where
  "normal_match_wc line =
     (case name_run line of
        None \<Rightarrow> None
      | Some (g1, rest) \<Rightarrow>
          (case rest of
             [] \<Rightarrow> None
           | d # r \<Rightarrow>
               if d = CHR '':'' then Some (g1, dropWhile is_space r)
               else if d = CHR ''('' \<and> CHR '')'' \<in> set r
               then (case dropWhile is_space (tl (dropWhile (\<lambda>c. c \<noteq> CHR '')'') r)) of
                       [] \<Rightarrow> None
                     | d' # r' \<Rightarrow>
                         if d' = CHR '':'' then Some (g1, dropWhile is_space r') else None)
               else None))"

definition is_credit :: "string \<Rightarrow> bool" where
  "is_credit line \<longleftrightarrow>
     startswith (py_lower line) ''written by'' \<or> startswith (py_lower line) ''story by''
     \<or> startswith (py_lower line) ''teleplay by''"

definition is_scene_marker :: "string \<Rightarrow> bool" where
  "is_scene_marker line \<longleftrightarrow>
     startswith line ''[Scene'' \<or> startswith line ''[Time'' \<or> startswith line ''[Cut''
     \<or> startswith line ''[Commercial'' \<or> startswith line ''[Closing''"

subsection \<open>Resolving the speaker\<close>

text \<open>
  The primary path works on group 1 of the speaker pattern: it rejects the line, defers it to
  the fallback, or yields the speakers of \<^verbatim>\<open>split_multi_speaker\<close>.
\<close>

datatype resolution = Reject | Defer | Speakers "string list"

definition words_no_ap :: "string \<Rightarrow> string list" where
  "words_no_ap lower_prefix = py_split (filter (\<lambda>c. c \<noteq> apostrophe) lower_prefix)"

definition primary_path :: "string \<Rightarrow> resolution" where
  "primary_path group1 =
     (let prefix = py_strip group1;
          lower_prefix = py_lower prefix
      in if lower_prefix \<in> set GROUP_SPEAKER_PHRASES then Reject
         else if lower_prefix \<in> set GENERIC_ROLES then Reject
         else if list_ex (\<lambda>w. w \<in> set GROUP_SPEAKER_PHRASES) (words_no_ap lower_prefix)
           then Reject
         else if list_ex (\<lambda>w. w \<in> set GENERIC_ROLES) (words_no_ap lower_prefix) then Reject
         else if list_ex (\<lambda>w. w \<in> set GROUP_INDICATORS) (words_no_ap lower_prefix)
           then Reject
         else if list_ex (\<lambda>w. w \<in> set ACTION_WORDS) (words_no_ap lower_prefix) then Defer
         else Speakers (split_multi_speaker prefix))"

text \<open>\<^verbatim>\<open>NAME_MAP.get(speaker.upper(), speaker.title())\<close>, with the alias table as a parameter.\<close>

definition normalize :: "(string, string) dict \<Rightarrow> string \<Rightarrow> string" where
  "normalize name_map speaker =
     (case dict_get name_map (py_upper speaker) of
        None \<Rightarrow> py_title speaker
      | Some full \<Rightarrow> full)"

text \<open>
  The fallback path works on the whole line: the name to add to the scene, if the line has a
  colon, its prefix is not rejected and exactly one principal name occurs in the prefix.
\<close>

definition fallback_prefix :: "string \<Rightarrow> string" where
  "fallback_prefix line = py_lower (py_strip (takeWhile (\<lambda>c. c \<noteq> CHR '':'') line))"

definition fallback_path :: "string \<Rightarrow> string option" where
  "fallback_path line =
     (if CHR '':'' \<in> set line then
        (let lower_prefix = fallback_prefix line
         in if lower_prefix \<in> set GROUP_SPEAKER_PHRASES then None
            else if lower_prefix \<in> set GENERIC_ROLES then None
            else if list_ex (\<lambda>w. w \<in> set GROUP_INDICATORS) (words_no_ap lower_prefix)
              then None
            else (case filter (\<lambda>nm. is_substring (py_lower nm) lower_prefix) MAIN_CHARS of
                    [nm] \<Rightarrow> Some nm
                  | _ \<Rightarrow> None))
      else None)"

subsection \<open>\<^verbatim>\<open>parse_episode_file\<close>\<close>

record scene_state =
  scenes :: "string set list"
  current_scene :: "string set"

definition close_scene :: "scene_state \<Rightarrow> scene_state" where
  "close_scene st =
     \<lparr>scenes = (if current_scene st \<noteq> {} then scenes st @ [current_scene st] else scenes st),
      current_scene = {}\<rparr>"

definition add_character :: "string \<Rightarrow> scene_state \<Rightarrow> scene_state" where
  "add_character nm st = st\<lparr>current_scene := insert nm (current_scene st)\<rparr>"

definition fallback :: "scene_state \<Rightarrow> string \<Rightarrow> scene_state" where
  "fallback st line =
     (case fallback_path line of None \<Rightarrow> st | Some nm \<Rightarrow> add_character nm st)"

text \<open>One iteration of the loop over the lines, with the alias table as a parameter.\<close>

definition process_line_with ::
  "(string, string) dict \<Rightarrow> scene_state \<Rightarrow> string \<Rightarrow> scene_state" where
  "process_line_with name_map st raw_line =
     (let line = py_strip raw_line in
      if line = [] then st
      else if is_credit line then st
      else if startswith line ''('' then st
      else if is_scene_marker line then close_scene st
      else (case normal_match line of
              Some group1 \<Rightarrow>
                (case primary_path group1 of
                   Reject \<Rightarrow> st
                 | Defer \<Rightarrow> fallback st line
                 | Speakers speakers \<Rightarrow>
                     fold (\<lambda>speaker. add_character (normalize name_map speaker)) speakers st)
            | None \<Rightarrow> fallback st line))"

definition process_line :: "scene_state \<Rightarrow> string \<Rightarrow> scene_state" where
  "process_line = process_line_with NAME_MAP"

text \<open>
  \<^verbatim>\<open>Counter\<close> increments over \<^verbatim>\<open>combinations(sorted(scene), 2)\<close>: the pairs of a sorted list
  in position order. Strings are compared character by character by code point.
\<close>

fun combinations2 :: "'a list \<Rightarrow> ('a \<times> 'a) list" where
  "combinations2 [] = []"
| "combinations2 (x # xs) = map (Pair x) xs @ combinations2 xs"

definition counter_inc :: "('k, int) dict \<Rightarrow> 'k \<Rightarrow> ('k, int) dict" where
  "counter_inc d k = dict_set d k ((case dict_get d k of None \<Rightarrow> 0 | Some c \<Rightarrow> c) + 1)"

definition count_interactions :: "string set list \<Rightarrow> (string \<times> string, int) dict" where
  "count_interactions scs =
     fold (\<lambda>scene d. fold (\<lambda>ab d. counter_inc d ab) (combinations2 (sorted_list_of_set scene)) d)
       scs []"

definition scene_init :: scene_state where
  "scene_init = \<lparr>scenes = [], current_scene = {}\<rparr>"

definition parse_lines_with :: "(string, string) dict \<Rightarrow> string \<Rightarrow> string set list" where
  "parse_lines_with name_map text =
     scenes (close_scene
       (fold (\<lambda>line st. process_line_with name_map st line) (py_splitlines text) scene_init))"

definition parse_episode_file ::
  "string \<Rightarrow> string set list \<times> (string \<times> string, int) dict" where
  "parse_episode_file text =
     (let scs = parse_lines_with NAME_MAP text in (scs, count_interactions scs))"

subsection \<open>\<^verbatim>\<open>parse_episode_file_with_wordcount\<close>\<close>

text \<open>
  The local variable \<^verbatim>\<open>content\<close> is assigned when the speaker pattern matches and keeps its
  value over the following lines; the fallback reads it, and raises \<^verbatim>\<open>UnboundLocalError\<close>
  when no line has matched so far.
\<close>

record wc_state = scene_state +
  word_count :: "(string, int) dict"
  content :: "string option"

definition wc_close_scene :: "wc_state \<Rightarrow> wc_state" where
  "wc_close_scene st =
     st\<lparr>scenes := (if current_scene st \<noteq> {} then scenes st @ [current_scene st] else scenes st),
        current_scene := {}\<rparr>"

definition wc_add :: "string \<Rightarrow> int \<Rightarrow> wc_state \<Rightarrow> wc_state" where
  "wc_add nm k st =
     st\<lparr>current_scene := insert nm (current_scene st),
        word_count := dict_set (word_count st) nm
          ((case dict_get (word_count st) nm of None \<Rightarrow> 0 | Some c \<Rightarrow> c) + k)\<rparr>"

definition wc_fallback :: "wc_state \<Rightarrow> string \<Rightarrow> error + wc_state" where
  "wc_fallback st line =
     (case fallback_path line of
        None \<Rightarrow> Inr st
      | Some nm \<Rightarrow>
          (case content st of
             None \<Rightarrow> Inl UnboundLocalError
           | Some c \<Rightarrow> Inr (wc_add nm (int (length c)) st)))"

definition process_line_wc_with ::
  "(string, string) dict \<Rightarrow> wc_state \<Rightarrow> string \<Rightarrow> error + wc_state" where
  "process_line_wc_with name_map st raw_line =
     (let line = py_strip raw_line in
      if line = [] then Inr st
      else if is_credit line then Inr st
      else if startswith line ''('' then Inr st
      else if is_scene_marker line then Inr (wc_close_scene st)
      else (case normal_match_wc line of
              Some (group1, group2) \<Rightarrow>
                (let st1 = st\<lparr>content := Some (py_strip group2)\<rparr> in
                 case primary_path group1 of
                   Reject \<Rightarrow> Inr st1
                 | Defer \<Rightarrow> wc_fallback st1 line
                 | Speakers speakers \<Rightarrow>
                     Inr (fold (\<lambda>speaker. wc_add (normalize name_map speaker)
                                   (int (length (py_split (py_strip group2)))))
                            speakers st1))
            | None \<Rightarrow> wc_fallback st line))"

fun run_lines_wc :: "(string, string) dict \<Rightarrow> wc_state \<Rightarrow> string list \<Rightarrow> error + wc_state" where
  "run_lines_wc name_map st [] = Inr st"
| "run_lines_wc name_map st (line # rest) =
     (case process_line_wc_with name_map st line of
        Inl e \<Rightarrow> Inl e
      | Inr st' \<Rightarrow> run_lines_wc name_map st' rest)"

definition wc_init :: wc_state where
  "wc_init = \<lparr>scenes = [], current_scene = {}, word_count = [], content = None\<rparr>"

definition parse_episode_file_with_wordcount ::
  "string \<Rightarrow> error + string set list \<times> (string \<times> string, int) dict \<times> (string, int) dict" where
  "parse_episode_file_with_wordcount text =
     (case run_lines_wc NAME_MAP wc_init (py_splitlines text) of
        Inl e \<Rightarrow> Inl e
      | Inr st \<Rightarrow>
          (let scs = scenes (wc_close_scene st)
           in Inr (scs, count_interactions scs, word_count st)))"

subsection \<open>Notions for the statements about the parser\<close>

text \<open>
  A stripped line gets to the speaker pattern when it is not blank, not a credit line, not a
  stage direction and not a scene boundary. It reaches the fallback when the pattern fails or
  the primary path defers it.
\<close>

definition speaker_line :: "string \<Rightarrow> bool" where
  "speaker_line line \<longleftrightarrow>
     line \<noteq> [] \<and> \<not> is_credit line \<and> \<not> startswith line ''('' \<and> \<not> is_scene_marker line"

definition reaches_fallback :: "string \<Rightarrow> bool" where
  "reaches_fallback line \<longleftrightarrow>
     speaker_line line \<and>
     (case normal_match line of None \<Rightarrow> True | Some g \<Rightarrow> primary_path g = Defer)"

definition reaches_fallback_wc :: "string \<Rightarrow> bool" where
  "reaches_fallback_wc line \<longleftrightarrow>
     speaker_line line \<and>
     (case normal_match_wc line of None \<Rightarrow> True | Some gc \<Rightarrow> primary_path (fst gc) = Defer)"

definition fallback_rejected :: "string \<Rightarrow> bool" where
  "fallback_rejected line \<longleftrightarrow>
     fallback_prefix line \<in> set GROUP_SPEAKER_PHRASES
     \<or> fallback_prefix line \<in> set GENERIC_ROLES
     \<or> fallback_prefix line \<in> set GROUP_INDICATORS
     \<or> list_ex (\<lambda>w. w \<in> set GROUP_INDICATORS) (words_no_ap (fallback_prefix line))"

text \<open>The number of scenes of a list that contain both names.\<close>

definition scene_count :: "string set list \<Rightarrow> string \<Rightarrow> string \<Rightarrow> int" where
  "scene_count scs a b = int (length (filter (\<lambda>S. a \<in> S \<and> b \<in> S) scs))"

definition scenes_finite :: "scene_state \<Rightarrow> bool" where
  "scenes_finite st \<longleftrightarrow> finite (current_scene st) \<and> list_all finite (scenes st)"

text \<open>
  The scene part of a word-count state, and the texts on which the two speaker patterns
  agree: every line that gets to the patterns and matches the basic one also matches the
  word-count one.
\<close>

definition scene_part :: "wc_state \<Rightarrow> scene_state" where
  "scene_part st = \<lparr>scenes = scenes st, current_scene = current_scene st\<rparr>"

definition line_agrees :: "string \<Rightarrow> bool" where
  "line_agrees raw \<longleftrightarrow>
     (speaker_line (py_strip raw) \<and> normal_match (py_strip raw) \<noteq> None
        \<longrightarrow> normal_match_wc (py_strip raw) \<noteq> None)"

definition patterns_agree :: "string \<Rightarrow> bool" where
  "patterns_agree text \<longleftrightarrow> list_all line_agrees (py_splitlines text)"

section \<open>Dictionary lemmas\<close>

lemma dict_get_Nil: "dict_get [] k = None"
  by (simp add: dict_get_def)

lemma dict_get_set: "dict_get (dict_set d k v) k' = (if k' = k then Some v else dict_get d k')"
  by (induction d) (auto simp: dict_get_def)

lemma dict_has_get: "dict_has d k \<longleftrightarrow> dict_get d k \<noteq> None"
  by (simp add: dict_has_def dict_keys_def dict_get_def map_of_eq_None_iff)

lemma dict_has_set: "dict_has (dict_set d k v) k' \<longleftrightarrow> k' = k \<or> dict_has d k'"
  by (simp add: dict_has_get dict_get_set)

lemma dict_keys_set:
  "set (dict_keys (dict_set d k v)) = insert k (set (dict_keys d))"
  using dict_has_set [of d k v] by (auto simp: dict_has_def)

lemma set_dict_set: "set (dict_set d k v) \<subseteq> insert (k, v) (set d)"
  by (induction d) (auto split: if_splits)

lemma length_dict_set:
  "length (dict_set d k v) = (if dict_get d k = None then Suc (length d) else length d)"
  by (induction d) (auto simp: dict_get_def)

lemma sum_dict_set:
  "sum_list (map snd (dict_set d k v)) =
     (case dict_get d k of None \<Rightarrow> sum_list (map snd d) + v
      | Some old \<Rightarrow> sum_list (map snd d) - old + (v::int))"
  by (induction d) (auto simp: dict_get_def split: option.splits)

section \<open>Graph lemmas\<close>

lemma get_add_node:
  "dict_get (nodes (add_node g a)) k =
     (if k = a then Some (node_or_new g a) else dict_get (nodes g) k)"
  by (auto simp: add_node_def node_or_new_def dict_has_get dict_get_set)

lemma add_node_has: "dict_get (nodes (add_node g a)) a \<noteq> None"
  by (simp add: get_add_node)

lemma get_update_node:
  "dict_get (nodes (update_node g k f)) k' =
     (if k' = k then map_option f (dict_get (nodes g) k) else dict_get (nodes g) k')"
  by (auto simp: update_node_def dict_get_set split: option.splits)

lemma get_add_edge:
  "dict_get (nodes (add_edge g a b w)) k =
     (if k = b then
        Some (add_neighbor
                (if a = b then add_neighbor (node_or_new g a) b w else node_or_new g b) a w)
      else if k = a then Some (add_neighbor (node_or_new g a) b w)
      else dict_get (nodes g) k)"
  by (auto simp: add_edge_def Let_def get_update_node get_add_node node_or_new_def
           split: option.splits)

lemma node_or_new_add_edge:
  "node_or_new (add_edge g a b w) k =
     (if k = b then
        add_neighbor (if a = b then add_neighbor (node_or_new g a) b w else node_or_new g b) a w
      else if k = a then add_neighbor (node_or_new g a) b w
      else node_or_new g k)"
  by (simp add: node_or_new_def [of "add_edge g a b w"] get_add_edge)
     (simp add: node_or_new_def)

lemma neighbors_add_neighbor:
  "dict_get (neighbors (add_neighbor n b w)) k =
     (if k = b then Some (weight_or_0 (dict_get (neighbors n) b) + w)
      else dict_get (neighbors n) k)"
  by (auto simp: add_neighbor_def weight_or_0_def dict_get_set split: option.splits)

lemma degree_add_neighbor:
  "degree (add_neighbor n b w) =
     (if dict_get (neighbors n) b = None then degree n + 1 else degree n)"
  by (auto simp: add_neighbor_def split: option.splits)

lemma weighted_degree_add_neighbor:
  "weighted_degree (add_neighbor n b w) = weighted_degree n + w"
  by (auto simp: add_neighbor_def split: option.splits)

lemma node_ok_init: "node_ok (Node_init nm)"
  by (simp add: node_ok_def Node_init_def)

lemma node_ok_add_neighbor: "node_ok n \<Longrightarrow> node_ok (add_neighbor n b w)"
  by (auto simp: node_ok_def add_neighbor_def sum_dict_set length_dict_set
           split: option.splits)

lemma node_ok_add_popularity_score: "node_ok n \<Longrightarrow> node_ok (add_popularity_score n s)"
  by (auto simp: node_ok_def add_popularity_score_def split: option.splits)

lemma node_ok_add_effective_popularity_score:
  "node_ok n \<Longrightarrow> node_ok (add_effective_popularity_score n s)"
  by (auto simp: node_ok_def add_effective_popularity_score_def split: option.splits)

lemma graph_ok_init: "graph_ok Graph_init"
  by (simp add: graph_ok_def Graph_init_def)

lemma graph_ok_add_node: "graph_ok g \<Longrightarrow> graph_ok (add_node g a)"
  using set_dict_set [of "nodes g" a "Node_init a"]
  by (auto simp: graph_ok_def add_node_def node_ok_init)

lemma graph_ok_update_node:
  assumes "graph_ok g" and "\<And>n. node_ok n \<Longrightarrow> node_ok (f n)"
  shows "graph_ok (update_node g k f)"
proof (cases "dict_get (nodes g) k")
  case None
  then show ?thesis using assms(1) by (simp add: update_node_def)
next
  case (Some n)
  then have "node_ok n"
    using assms(1) dict_get_in_set [of "nodes g" k n] by (auto simp: graph_ok_def)
  then have "node_ok (f n)" by (rule assms(2))
  then show ?thesis
    using Some assms(1) set_dict_set [of "nodes g" k "f n"]
    by (auto simp: graph_ok_def update_node_def)
qed

lemma graph_ok_add_edge: "graph_ok g \<Longrightarrow> graph_ok (add_edge g a b w)"
  by (simp add: add_edge_def Let_def graph_ok_update_node graph_ok_add_node
        node_ok_add_neighbor)

lemma graph_ok_add_interactions: "graph_ok g \<Longrightarrow> graph_ok (fst (add_interactions g xs))"
  by (induction g xs rule: add_interactions.induct)
     (auto simp: graph_ok_add_edge split: option.splits)

lemma graph_ok_build:
  "graph_ok g \<Longrightarrow> graph_ok (fst (build_graph_from_interactions g ei))"
proof (induction ei arbitrary: g)
  case Nil
  then show ?case by simp
next
  case (Cons x rest)
  obtain epi interactions where x: "x = (epi, interactions)" by (cases x)
  obtain g' e where r: "add_interactions g interactions = (g', e)"
    by (cases "add_interactions g interactions")
  have ok: "graph_ok g'"
    using graph_ok_add_interactions [OF Cons.prems, of interactions] r by simp
  show ?case
  proof (cases e)
    case None
    then show ?thesis using x r Cons.IH [OF ok] by simp
  next
    case (Some err)
    then show ?thesis using x r ok by simp
  qed
qed

lemma graph_ok_add_scores: "graph_ok g \<Longrightarrow> graph_ok (add_scores g cs s)"
  by (induction g cs s rule: add_scores.induct)
     (simp_all add: graph_ok_update_node graph_ok_add_node node_ok_add_popularity_score)

lemma graph_ok_add_effective_scores:
  "graph_ok g \<Longrightarrow> graph_ok (add_effective_scores g cs s)"
  by (induction g cs s rule: add_effective_scores.induct)
     (simp_all add: graph_ok_update_node graph_ok_add_node
        node_ok_add_effective_popularity_score)

lemma graph_ok_presence: "graph_ok g \<Longrightarrow> graph_ok (add_popularity_by_presence g ec ep)"
  by (induction g ec ep rule: add_popularity_by_presence.induct)
     (auto simp: graph_ok_add_scores split: option.splits)

lemma graph_ok_wordcount:
  "graph_ok g \<Longrightarrow> graph_ok (add_popularity_by_wordcount g ew ep k)"
  by (induction g ew ep k rule: add_popularity_by_wordcount.induct)
     (auto simp: graph_ok_add_effective_scores Let_def split: option.splits)

lemma graph_ok_mutate: "graph_ok g \<Longrightarrow> graph_ok (mutate g m)"
  by (cases m)
     (simp_all add: graph_ok_add_node graph_ok_add_edge graph_ok_build graph_ok_presence
        graph_ok_wordcount)

lemma graph_ok_fold: "graph_ok g \<Longrightarrow> graph_ok (fold (\<lambda>m g. mutate g m) ms g)"
  by (induction ms arbitrary: g) (simp_all add: graph_ok_mutate)

lemma graph_ok_run: "graph_ok (run_mutations ms)"
  by (simp add: run_mutations_def graph_ok_fold graph_ok_init)

section \<open>Season filter lemmas\<close>





















text \<open>
  An identifier produced by the corpus aggregator starts with \<^verbatim>\<open>S<digits>E\<close>, so its season
  number is the value of those digits.
\<close>

lemma season_num_code:
  assumes "ds \<noteq> []" and "list_all is_digit ds"
  shows "season_num (CHR ''S'' # ds @ CHR ''E'' # rest) = Some (py_int ds)"
proof -
  have nd: "\<not> is_digit CHR ''E''" by (simp add: is_digit_def)
  have t: "takeWhile is_digit (ds @ CHR ''E'' # rest) = ds"
    using assms(2) nd by (simp add: list_all_iff takeWhile_append2)
  have d: "dropWhile is_digit (ds @ CHR ''E'' # rest) = CHR ''E'' # rest"
    using assms(2) nd by (simp add: list_all_iff dropWhile_append2)
  show ?thesis
    using assms(1) by (simp add: season_num_def t d)
qed

section \<open>Breadth-first search lemmas\<close>

lemma is_path_append:
  "is_path g p \<Longrightarrow> w \<in> set (succs g (last p)) \<Longrightarrow> is_path g (p @ [w])"
  by (induction g p rule: is_path.induct) auto

lemma path_from_to_append:
  "path_from_to g s u p \<Longrightarrow> w \<in> set (succs g u) \<Longrightarrow> path_from_to g s w (p @ [w])"
  by (auto simp: path_from_to_def is_path_append)

lemma path_from_to_single: "path_from_to g s s [s]"
  by (simp add: path_from_to_def)

lemma bfs_inv_init: "dict_has (nodes g) s \<Longrightarrow> bfs_inv g s e (\<lambda>_. 1) [(s, [s])] {s}"
  by (simp add: bfs_inv_def path_from_to_single)

lemma inv_queue:
  "bfs_inv g s e L q v \<Longrightarrow> (u, p) \<in> set q \<Longrightarrow>
     path_from_to g s u p \<and> L u = length p \<and> u \<in> v \<and> dict_has (nodes g) u"
  unfolding bfs_inv_def by (elim conjE) (drule (1) bspec, simp)

lemma inv_near:
  "bfs_inv g s e L q v \<Longrightarrow> (u, p) \<in> set q \<Longrightarrow> (u', p') \<in> set q \<Longrightarrow>
     length p \<le> length p' + 1"
  unfolding bfs_inv_def by (elim conjE) (drule (1) bspec, drule (1) bspec, simp)

lemma inv_head_min:
  "bfs_inv g s e L ((x, px) # q) v \<Longrightarrow> (u, p) \<in> set ((x, px) # q) \<Longrightarrow>
     length px \<le> length p"
  unfolding bfs_inv_def by (elim conjE) (auto simp del: One_nat_def)

lemma inv_done:
  "bfs_inv g s e L q v \<Longrightarrow> u \<in> v \<Longrightarrow> u \<notin> fst ` set q \<Longrightarrow>
     u \<noteq> e \<and> (\<forall>w \<in> set (succs g u). w \<in> v \<and> L w \<le> L u + 1)
       \<and> (\<forall>up \<in> set q. L u \<le> length (snd up))"
  unfolding bfs_inv_def by (elim conjE) (drule (1) bspec, simp)


lemma walk_bound:
  assumes inv: "bfs_inv g s e L ((x, px) # q) v"
  shows "is_path g w \<Longrightarrow> hd w \<in> v \<Longrightarrow> L (hd w) \<le> c \<Longrightarrow>
     (last w \<in> v \<and> L (last w) + 1 \<le> c + length w) \<or> length px + 1 \<le> c + length w"
proof (induction w arbitrary: c)
  case Nil
  then show ?case by simp
next
  case (Cons u rest)
  show ?case
  proof (cases rest)
    case Nil
    with Cons.prems show ?thesis by simp
  next
    case (Cons y rest')
    with Cons.prems have y: "y \<in> set (succs g u)" and p: "is_path g rest"
      and u: "u \<in> v" "L u \<le> c"
      by simp_all
    show ?thesis
    proof (cases "u \<in> fst ` set ((x, px) # q)")
      case True
      then obtain pu where pu: "(u, pu) \<in> set ((x, px) # q)" by force
      have "L u = length pu" using inv_queue [OF inv pu] by simp
      moreover have "length px \<le> length pu" by (rule inv_head_min [OF inv pu])
      ultimately have "length px \<le> c" using u by simp
      then show ?thesis by simp
    next
      case False
      from inv_done [OF inv u(1) False] y have "y \<in> v" "L y \<le> L u + 1" by auto
      then have "hd rest \<in> v" "L (hd rest) \<le> c + 1"
        using u Cons by auto
      from Cons.IH [OF p this] show ?thesis
        using Cons by auto
    qed
  qed
qed

lemma walk_closed:
  assumes inv: "bfs_inv g s e L [] v"
  shows "is_path g w \<Longrightarrow> hd w \<in> v \<Longrightarrow> last w \<in> v"
proof (induction w)
  case Nil
  then show ?case by simp
next
  case (Cons u rest)
  show ?case
  proof (cases rest)
    case Nil
    with Cons.prems show ?thesis by simp
  next
    case (Cons y rest')
    with Cons.prems have y: "y \<in> set (succs g u)" and p: "is_path g rest" and u: "u \<in> v"
      by simp_all
    from inv_done [OF inv u] y have "y \<in> v" by auto
    then have "hd rest \<in> v" using Cons by simp
    from Cons.IH [OF p this] show ?thesis using Cons by simp
  qed
qed

lemma bfs_inv_found:
  assumes inv: "bfs_inv g s e L ((e, path) # q) v"
  shows "path_from_to g s e path \<and> (\<forall>w. path_from_to g s e w \<longrightarrow> length path \<le> length w)"
proof (intro conjI allI impI)
  have top: "(e, path) \<in> set ((e, path) # q)" by simp
  note hd = inv_queue [OF inv top]
  from hd show "path_from_to g s e path" by simp
  fix w
  assume w: "path_from_to g s e w"
  have s: "s \<in> v" "L s \<le> 1" using inv by (simp_all add: bfs_inv_def)
  from w have "is_path g w" "hd w \<in> v" "L (hd w) \<le> 1" "last w = e"
    using s by (simp_all add: path_from_to_def)
  from walk_bound [OF inv this(1-3)] this(4) hd
  show "length path \<le> length w" by auto
qed

lemma bfs_inv_empty:
  assumes inv: "bfs_inv g s e L [] v"
  shows "\<not> (\<exists>p. path_from_to g s e p)"
proof
  assume "\<exists>p. path_from_to g s e p"
  then obtain p where p: "path_from_to g s e p" ..
  have s: "s \<in> v" using inv by (simp add: bfs_inv_def)
  from p s have "is_path g p" "hd p \<in> v" "last p = e" by (simp_all add: path_from_to_def)
  with walk_closed [OF inv] have "e \<in> v" by auto
  with inv_done [OF inv this] show False by simp
qed


lemma bfs_inv_step:
  assumes wf: "wf_graph g"
    and inv: "bfs_inv g s e L ((cur, path) # queue) v"
    and ne: "cur \<noteq> e"
    and n: "dict_get (nodes g) cur = Some n"
  shows "bfs_inv g s e (\<lambda>u. if u \<in> set (dict_keys (neighbors n)) - v then length path + 1 else L u)
           (queue @ map (\<lambda>w. (w, path @ [w])) (fresh v (dict_keys (neighbors n))))
           (v \<union> set (dict_keys (neighbors n)))"
proof -
  let ?ns = "dict_keys (neighbors n)"
  let ?new = "map (\<lambda>w. (w, path @ [w])) (fresh v ?ns)"
  let ?len = "\<lambda>up :: string \<times> string list. length (snd up)"
  define L' where "L' = (\<lambda>u. if u \<in> set ?ns - v then length path + 1 else L u)"
  have L'_old: "L' u = L u" if "u \<in> v" for u using that by (simp add: L'_def)
  have L'_new: "L' w = length path + 1" if "w \<in> set ?ns" "w \<notin> v" for w
    using that by (simp add: L'_def)
  have succs: "succs g cur = ?ns" using n by (simp add: succs_def)
  have top: "(cur, path) \<in> set ((cur, path) # queue)" by simp
  have hd: "path_from_to g s cur path" "L cur = length path" "cur \<in> v"
    using inv_queue [OF inv top] by simp_all
  have old: "path_from_to g s u p \<and> L u = length p \<and> u \<in> v \<and> dict_has (nodes g) u
      \<and> length path \<le> length p \<and> length p \<le> length path + 1"
    if "(u, p) \<in> set queue" for u p
  proof -
    from that have m: "(u, p) \<in> set ((cur, path) # queue)" by simp
    show ?thesis
      using inv_queue [OF inv m] inv_head_min [OF inv m] inv_near [OF inv m top] by simp
  qed
  have new: "\<exists>w. up = (w, path @ [w]) \<and> w \<in> set ?ns \<and> w \<notin> v" if "up \<in> set ?new" for up
    using that by (auto simp: set_fresh)
  have new_node: "dict_has (nodes g) w" if "w \<in> set ?ns" for w
  proof -
    have "(cur, n) \<in> set (nodes g)" by (rule dict_get_in_set [OF n])
    with wf that show ?thesis unfolding wf_graph_def by force
  qed
  have sv: "s \<in> v" and Ls: "L s = 1" using inv by (simp_all add: bfs_inv_def)
  have sorted_old: "sorted (map ?len queue)"
    using inv by (simp add: bfs_inv_def)
  have g1: "s \<in> v \<union> set ?ns" using sv by simp
  have g2: "L' s = 1" using L'_old [OF sv] Ls by simp
  have g3: "\<forall>up \<in> set (queue @ ?new). path_from_to g s (fst up) (snd up)
         \<and> L' (fst up) = length (snd up) \<and> fst up \<in> v \<union> set ?ns
         \<and> dict_has (nodes g) (fst up)"
  proof
    fix up assume "up \<in> set (queue @ ?new)"
    then consider (o) "up \<in> set queue" | (n) "up \<in> set ?new" by auto
    then show "path_from_to g s (fst up) (snd up)
         \<and> L' (fst up) = length (snd up) \<and> fst up \<in> v \<union> set ?ns
         \<and> dict_has (nodes g) (fst up)"
    proof cases
      case o
      then have "(fst up, snd up) \<in> set queue" by simp
      from old [OF this] show ?thesis using L'_old [of "fst up"] by simp
    next
      case n
      from new [OF n] obtain w where w: "up = (w, path @ [w])" "w \<in> set ?ns" "w \<notin> v"
        by blast
      have "path_from_to g s w (path @ [w])"
        using path_from_to_append [OF hd(1)] w(2) succs by simp
      with w new_node [OF w(2)] L'_new [OF w(2,3)] show ?thesis by simp
    qed
  qed
  have lens: "length path \<le> ?len up \<and> ?len up \<le> length path + 1"
    if "up \<in> set (queue @ ?new)" for up
  proof -
    from that consider (o) "up \<in> set queue" | (n) "up \<in> set ?new" by auto
    then show ?thesis
    proof cases
      case o
      then have "(fst up, snd up) \<in> set queue" by simp
      from old [OF this] show ?thesis by simp
    next
      case n
      from new [OF n] show ?thesis by auto
    qed
  qed
  have g4: "sorted (map ?len (queue @ ?new))"
  proof -
    have "map ?len ?new = replicate (length (fresh v ?ns)) (length path + 1)"
      by (simp add: map_replicate_const comp_def)
    then have "sorted (map ?len ?new)" by (simp only: sorted_replicate)
    moreover have "\<forall>x \<in> set (map ?len queue). \<forall>y \<in> set (map ?len ?new). x \<le> y"
    proof (intro ballI)
      fix x y assume x: "x \<in> set (map ?len queue)" and y: "y \<in> set (map ?len ?new)"
      from x obtain a where a: "a \<in> set queue" "x = ?len a"
        unfolding set_map by (elim imageE)
      from y obtain b where b: "b \<in> set ?new" "y = ?len b"
        unfolding set_map [of ?len] by (elim imageE)
      from a(1) have "(fst a, snd a) \<in> set queue" by simp
      from old [OF this] a(2) have "x \<le> length path + 1" by simp
      moreover from new [OF b(1)] b(2) have "y = length path + 1" by auto
      ultimately show "x \<le> y" by simp
    qed
    ultimately show ?thesis using sorted_old by (simp only: map_append sorted_append)
  qed
  have g5: "\<forall>up \<in> set (queue @ ?new). \<forall>up' \<in> set (queue @ ?new). ?len up \<le> ?len up' + 1"
  proof (intro ballI)
    fix up up' assume a: "up \<in> set (queue @ ?new)" "up' \<in> set (queue @ ?new)"
    from lens [OF a(1)] lens [OF a(2)] show "?len up \<le> ?len up' + 1" by simp
  qed
  have g6: "\<forall>u \<in> v \<union> set ?ns. u \<notin> fst ` set (queue @ ?new) \<longrightarrow>
         u \<noteq> e \<and> (\<forall>w \<in> set (succs g u). w \<in> v \<union> set ?ns \<and> L' w \<le> L' u + 1)
         \<and> (\<forall>up \<in> set (queue @ ?new). L' u \<le> ?len up)"
  proof (intro ballI impI)
    fix u assume u: "u \<in> v \<union> set ?ns" and nq: "u \<notin> fst ` set (queue @ ?new)"
    have uv: "u \<in> v"
    proof (rule ccontr)
      assume "u \<notin> v"
      with u have "u \<in> set (fresh v ?ns)" by (simp add: set_fresh)
      then have "(u, path @ [u]) \<in> set (queue @ ?new)" by simp
      then have "fst (u, path @ [u]) \<in> fst ` set (queue @ ?new)" by (rule imageI)
      with nq show False by simp
    qed
    have nq': "u \<notin> fst ` set queue"
    proof
      assume "u \<in> fst ` set queue"
      then obtain up where "up \<in> set queue" "u = fst up" by auto
      then have "up \<in> set (queue @ ?new)" "u = fst up" by simp_all
      then have "u \<in> fst ` set (queue @ ?new)" by (simp only: image_eqI)
      with nq show False by simp
    qed
    have Lu: "L' u = L u" by (rule L'_old [OF uv])
    have Lold: "L w \<le> length path + 1" if "w \<in> v" for w
    proof (cases "w \<in> fst ` set ((cur, path) # queue)")
      case True
      then obtain pw where pw: "(w, pw) \<in> set ((cur, path) # queue)" by force
      from inv_queue [OF inv pw] inv_near [OF inv pw top] show ?thesis by simp
    next
      case False
      from inv_done [OF inv that False] have "L w \<le> length path" by simp
      then show ?thesis by simp
    qed
    have Lall: "L' w \<le> length path + 1" if "w \<in> v \<union> set ?ns" for w
    proof (cases "w \<in> v")
      case True
      with Lold [OF True] L'_old [OF True] show ?thesis by simp
    next
      case False
      with that have "w \<in> set ?ns" by simp
      from L'_new [OF this False] show ?thesis by simp
    qed
    show "u \<noteq> e \<and> (\<forall>w \<in> set (succs g u). w \<in> v \<union> set ?ns \<and> L' w \<le> L' u + 1)
         \<and> (\<forall>up \<in> set (queue @ ?new). L' u \<le> ?len up)"
    proof (cases "u = cur")
      case True
      have Lc: "L' u = length path" using Lu True hd(2) by simp
      have a: "u \<noteq> e" using True ne by simp
      have b: "\<forall>w \<in> set (succs g u). w \<in> v \<union> set ?ns \<and> L' w \<le> L' u + 1"
      proof
        fix w assume "w \<in> set (succs g u)"
        then have w: "w \<in> set ?ns" using True succs by simp
        then have "w \<in> v \<union> set ?ns" by simp
        from this Lall [OF this] show "w \<in> v \<union> set ?ns \<and> L' w \<le> L' u + 1"
          unfolding Lc by simp
      qed
      have c: "\<forall>up \<in> set (queue @ ?new). L' u \<le> ?len up"
      proof
        fix up assume "up \<in> set (queue @ ?new)"
        from lens [OF this] show "L' u \<le> ?len up" unfolding Lc by simp
      qed
      from a b c show ?thesis by (intro conjI)
    next
      case False
      with nq' have nq'': "u \<notin> fst ` set ((cur, path) # queue)" by simp
      note d = inv_done [OF inv uv nq'']
      have a: "u \<noteq> e" using d by simp
      have b: "\<forall>w \<in> set (succs g u). w \<in> v \<union> set ?ns \<and> L' w \<le> L' u + 1"
      proof
        fix w assume "w \<in> set (succs g u)"
        with d have w: "w \<in> v" "L w \<le> L u + 1" by auto
        with L'_old [OF w(1)] show "w \<in> v \<union> set ?ns \<and> L' w \<le> L' u + 1"
          unfolding Lu by simp
      qed
      from d have dl: "L u \<le> length path" by simp
      have c: "\<forall>up \<in> set (queue @ ?new). L' u \<le> ?len up"
      proof
        fix up assume "up \<in> set (queue @ ?new)"
        from lens [OF this] dl show "L' u \<le> ?len up" unfolding Lu by simp
      qed
      from a b c show ?thesis by (intro conjI)
    qed
  qed
  have "bfs_inv g s e L' (queue @ ?new) (v \<union> set ?ns)"
    unfolding bfs_inv_def by (intro conjI g1 g2 g3 g4 g5 g6)
  then show ?thesis unfolding L'_def .
qed

lemma bfs_correct:
  "wf_graph g \<Longrightarrow> bfs_inv g s e L q v \<Longrightarrow>
   \<exists>r. bfs g e q v = Inr r \<and>
     (case r of
        None \<Rightarrow> \<not> (\<exists>p. path_from_to g s e p)
      | Some p \<Rightarrow> path_from_to g s e p
          \<and> (\<forall>w. path_from_to g s e w \<longrightarrow> length p \<le> length w))"
proof (induction g e q v arbitrary: L rule: bfs.induct)
  case (1 g finish visited)
  from bfs_inv_empty [OF "1.prems"(2)] show ?case by simp
next
  case (2 g finish cur path queue visited)
  note wf = "2.prems"(1) and inv = "2.prems"(2)
  show ?case
  proof (cases "cur = finish")
    case True
    with inv have "bfs_inv g s finish L ((finish, path) # queue) visited" by simp
    from bfs_inv_found [OF this] True show ?thesis by simp
  next
    case False
    have "(cur, path) \<in> set ((cur, path) # queue)" by simp
    from inv_queue [OF inv this] have "dict_has (nodes g) cur" by simp
    then obtain n where n: "dict_get (nodes g) cur = Some n"
      by (auto simp: dict_has_get)
    let ?ns = "dict_keys (neighbors n)"
    let ?q = "queue @ map (\<lambda>w. (w, path @ [w])) (fresh visited ?ns)"
    let ?v = "visited \<union> set ?ns"
    have f: "fold (visit path) ?ns (queue, visited) = (?q, ?v)" by (rule fold_visit)
    note step = bfs_inv_step [OF wf inv False n]
    from "2.IH" [OF False n f [symmetric] wf step]
    show ?thesis using False n f by simp
  qed
qed

lemma shortest_path_wf:
  assumes wf: "wf_graph g"
  shows "\<exists>r. shortest_path g s e = Inr r \<and>
     (case r of
        None \<Rightarrow> \<not> dict_has (nodes g) s \<or> \<not> dict_has (nodes g) e
                 \<or> \<not> (\<exists>p. path_from_to g s e p)
      | Some p \<Rightarrow> dict_has (nodes g) s \<and> dict_has (nodes g) e \<and> path_from_to g s e p
          \<and> (\<forall>w. path_from_to g s e w \<longrightarrow> length p \<le> length w))"
proof (cases "dict_has (nodes g) s \<and> dict_has (nodes g) e")
  case True
  then have sp: "shortest_path g s e = bfs g e [(s, [s])] {s}"
    by (simp add: shortest_path_def)
  from True have "dict_has (nodes g) s" by simp
  then have "bfs_inv g s e (\<lambda>_. 1) [(s, [s])] {s}" by (rule bfs_inv_init)
  from bfs_correct [OF wf this] obtain r where r: "bfs g e [(s, [s])] {s} = Inr r"
    "case r of
        None \<Rightarrow> \<not> (\<exists>p. path_from_to g s e p)
      | Some p \<Rightarrow> path_from_to g s e p
          \<and> (\<forall>w. path_from_to g s e w \<longrightarrow> length p \<le> length w)" by blast
  show ?thesis
    unfolding sp r(1) using r(2) True by (cases r) simp_all
next
  case False
  then have "shortest_path g s e = Inr None" by (auto simp: shortest_path_def)
  with False show ?thesis by auto
qed


section \<open>Every graph built by the operations is well formed\<close>

lemma dict_has_add_node: "dict_has (nodes (add_node g a)) k \<longleftrightarrow> k = a \<or> dict_has (nodes g) k"
  by (auto simp: dict_has_get get_add_node)

lemma dict_has_update_node: "dict_has (nodes (update_node g k f)) k' \<longleftrightarrow> dict_has (nodes g) k'"
  by (auto simp: dict_has_get get_update_node)

lemma set_nodes_add_node: "set (nodes (add_node g a)) \<subseteq> insert (a, Node_init a) (set (nodes g))"
  using set_dict_set [of "nodes g" a "Node_init a"] by (auto simp: add_node_def)

lemma set_nodes_update_node:
  assumes "kn \<in> set (nodes (update_node g k f))"
  shows "kn \<in> set (nodes g) \<or> (\<exists>n. (k, n) \<in> set (nodes g) \<and> kn = (k, f n))"
proof (cases "dict_get (nodes g) k")
  case None
  with assms show ?thesis by (simp add: update_node_def)
next
  case (Some n)
  with assms have "kn \<in> set (dict_set (nodes g) k (f n))" by (simp add: update_node_def)
  with set_dict_set [of "nodes g" k "f n"] have "kn = (k, f n) \<or> kn \<in> set (nodes g)" by auto
  with dict_get_in_set [OF Some] show ?thesis by auto
qed

lemma wf_graph_init: "wf_graph Graph_init"
  by (simp add: wf_graph_def Graph_init_def)

lemma wf_graph_add_node: "wf_graph g \<Longrightarrow> wf_graph (add_node g a)"
  unfolding wf_graph_def
proof (intro ballI)
  fix kn b
  assume wf: "\<forall>kn \<in> set (nodes g). \<forall>b \<in> set (dict_keys (neighbors (snd kn))). dict_has (nodes g) b"
    and kn: "kn \<in> set (nodes (add_node g a))"
    and b: "b \<in> set (dict_keys (neighbors (snd kn)))"
  from kn set_nodes_add_node [of g a] have "kn = (a, Node_init a) \<or> kn \<in> set (nodes g)" by auto
  then show "dict_has (nodes (add_node g a)) b"
  proof
    assume "kn = (a, Node_init a)"
    with b show ?thesis by (simp add: Node_init_def dict_keys_def)
  next
    assume "kn \<in> set (nodes g)"
    with wf b have "dict_has (nodes g) b" by blast
    then show ?thesis by (simp add: dict_has_add_node)
  qed
qed

lemma wf_graph_update_node:
  assumes wf: "wf_graph g"
    and f: "\<And>n. set (dict_keys (neighbors (f n))) \<subseteq> set (dict_keys (neighbors n)) \<union> B"
    and B: "\<forall>b \<in> B. dict_has (nodes g) b"
  shows "wf_graph (update_node g k f)"
  unfolding wf_graph_def
proof (intro ballI)
  fix kn b
  assume kn: "kn \<in> set (nodes (update_node g k f))"
    and b: "b \<in> set (dict_keys (neighbors (snd kn)))"
  from set_nodes_update_node [OF kn]
  have "dict_has (nodes g) b"
  proof
    assume "kn \<in> set (nodes g)"
    with wf b show ?thesis unfolding wf_graph_def by blast
  next
    assume "\<exists>n. (k, n) \<in> set (nodes g) \<and> kn = (k, f n)"
    then obtain n where n: "(k, n) \<in> set (nodes g)" "kn = (k, f n)" by blast
    with b f [of n] have "b \<in> set (dict_keys (neighbors n)) \<or> b \<in> B" by auto
    then show ?thesis
    proof
      assume "b \<in> set (dict_keys (neighbors n))"
      with wf n(1) show ?thesis unfolding wf_graph_def by force
    next
      assume "b \<in> B"
      with B show ?thesis by blast
    qed
  qed
  then show "dict_has (nodes (update_node g k f)) b" by (simp add: dict_has_update_node)
qed

lemma keys_add_neighbor:
  "set (dict_keys (neighbors (add_neighbor n b w))) = insert b (set (dict_keys (neighbors n)))"
  by (auto simp: add_neighbor_def dict_keys_set split: option.splits)

lemma wf_graph_add_edge: "wf_graph g \<Longrightarrow> wf_graph (add_edge g a b w)"
proof -
  assume wf: "wf_graph g"
  let ?g2 = "add_node (add_node g a) b"
  let ?g3 = "update_node ?g2 a (\<lambda>n. add_neighbor n b w)"
  have wf2: "wf_graph ?g2" by (intro wf_graph_add_node wf)
  have wf3: "wf_graph ?g3"
    by (rule wf_graph_update_node [OF wf2, where B = "{b}"])
       (simp_all add: keys_add_neighbor dict_has_add_node)
  have "wf_graph (update_node ?g3 b (\<lambda>n. add_neighbor n a w))"
    by (rule wf_graph_update_node [OF wf3, where B = "{a}"])
       (simp_all add: keys_add_neighbor dict_has_add_node dict_has_update_node)
  then show ?thesis by (simp add: add_edge_def Let_def)
qed

lemma wf_graph_add_interactions: "wf_graph g \<Longrightarrow> wf_graph (fst (add_interactions g xs))"
  by (induction g xs rule: add_interactions.induct)
     (auto simp: wf_graph_add_edge split: option.splits)

lemma wf_graph_build:
  "wf_graph g \<Longrightarrow> wf_graph (fst (build_graph_from_interactions g ei))"
proof (induction ei arbitrary: g)
  case Nil
  then show ?case by simp
next
  case (Cons x rest)
  obtain epi interactions where x: "x = (epi, interactions)" by (cases x)
  obtain g' e where r: "add_interactions g interactions = (g', e)"
    by (cases "add_interactions g interactions")
  have ok: "wf_graph g'"
    using wf_graph_add_interactions [OF Cons.prems, of interactions] r by simp
  show ?case
  proof (cases e)
    case None
    then show ?thesis using x r Cons.IH [OF ok] by simp
  next
    case (Some err)
    then show ?thesis using x r ok by simp
  qed
qed

lemma wf_graph_score:
  "wf_graph g \<Longrightarrow> wf_graph (update_node (add_node g c) c (\<lambda>n. add_popularity_score n s))"
  by (rule wf_graph_update_node [where B = "{}"])
     (auto simp: wf_graph_add_node add_popularity_score_def split: option.splits)

lemma wf_graph_effective_score:
  "wf_graph g \<Longrightarrow>
   wf_graph (update_node (add_node g c) c (\<lambda>n. add_effective_popularity_score n s))"
  by (rule wf_graph_update_node [where B = "{}"])
     (auto simp: wf_graph_add_node add_effective_popularity_score_def split: option.splits)

lemma wf_graph_add_scores: "wf_graph g \<Longrightarrow> wf_graph (add_scores g cs s)"
  by (induction g cs s rule: add_scores.induct) (simp_all add: wf_graph_score)

lemma wf_graph_add_effective_scores:
  "wf_graph g \<Longrightarrow> wf_graph (add_effective_scores g cs s)"
  by (induction g cs s rule: add_effective_scores.induct)
     (simp_all add: wf_graph_effective_score)

lemma wf_graph_presence: "wf_graph g \<Longrightarrow> wf_graph (add_popularity_by_presence g ec ep)"
  by (induction g ec ep rule: add_popularity_by_presence.induct)
     (auto simp: wf_graph_add_scores split: option.splits)

lemma wf_graph_wordcount:
  "wf_graph g \<Longrightarrow> wf_graph (add_popularity_by_wordcount g ew ep k)"
  by (induction g ew ep k rule: add_popularity_by_wordcount.induct)
     (auto simp: wf_graph_add_effective_scores Let_def split: option.splits)

lemma wf_graph_mutate: "wf_graph g \<Longrightarrow> wf_graph (mutate g m)"
  by (cases m)
     (simp_all add: wf_graph_add_node wf_graph_add_edge wf_graph_build wf_graph_presence
        wf_graph_wordcount)

lemma wf_graph_fold: "wf_graph g \<Longrightarrow> wf_graph (fold (\<lambda>m g. mutate g m) ms g)"
  by (induction ms arbitrary: g) (simp_all add: wf_graph_mutate)

lemma wf_graph_run: "wf_graph (run_mutations ms)"
  by (simp add: run_mutations_def wf_graph_fold wf_graph_init)

section \<open>Parser lemmas\<close>

lemma count_interactions_single: "count_interactions [{x}] = []"
  by (simp add: count_interactions_def)

lemma count_interactions_Nil: "count_interactions [] = []"
  by (simp add: count_interactions_def)

lemma parse_single_line:
  "py_splitlines l = [l] \<Longrightarrow>
   parse_lines_with nm l = scenes (close_scene (process_line_with nm scene_init l))"
  by (simp add: parse_lines_with_def)

lemma group_indicator_words: "\<forall>p \<in> set GROUP_INDICATORS. words_no_ap p = [p]"
  by code_simp

lemma fallback_rejected_None:
  assumes "fallback_rejected line"
  shows "fallback_path line = None"
proof -
  have "list_ex (\<lambda>w. w \<in> set GROUP_INDICATORS) (words_no_ap (fallback_prefix line))"
    if "fallback_prefix line \<in> set GROUP_INDICATORS"
    using that group_indicator_words by (simp add: list_ex_iff)
  with assms show ?thesis
    unfolding fallback_rejected_def fallback_path_def Let_def by auto
qed

text \<open>
  The no-break space and the next-line character are whitespace to \<^verbatim>\<open>strip\<close>, \<^verbatim>\<open>split\<close> and
  the speaker pattern, and the next-line character ends a line: a name followed by a no-break
  space and an aside is matched by the speaker pattern and does not get to the fallback.
\<close>

lemma latin1_whitespace:
  "py_strip ([CHR 0xA0] @ ''a b'' @ [CHR 0x85]) = ''a b''
   \<and> py_split (''a'' @ [CHR 0xA0] @ ''b'') = [''a'', ''b'']
   \<and> py_splitlines (''a'' @ [CHR 0x85] @ ''b'') = [''a'', ''b'']
   \<and> normal_match (''Monica'' @ [CHR 0xA0] @ ''(smiling) hi'') = Some (''Monica'' @ [CHR 0xA0])
   \<and> normal_match_wc (''Monica'' @ [CHR 0xA0] @ ''(smiling) hi'') = None
   \<and> \<not> reaches_fallback (''Monica'' @ [CHR 0xA0] @ ''(the kids are here): hi'')
   \<and> parse_episode_file (''Monica'' @ [CHR 0xA0] @ ''(the kids are here): hi'')
       = ([{''Monica''}], [])"
  by code_simp

section \<open>Interaction count lemmas\<close>

lemma dict_get_counter_inc:
  "dict_get (counter_inc d k') k =
     (if k = k' then Some (weight_or_0 (dict_get d k') + 1) else dict_get d k)"
  by (simp add: counter_inc_def dict_get_set weight_or_0_def)

lemma dict_keys_counter_inc: "set (dict_keys (counter_inc d k)) = insert k (set (dict_keys d))"
  by (simp add: counter_inc_def dict_keys_set)

lemma distinct_dict_set: "distinct (dict_keys d) \<Longrightarrow> distinct (dict_keys (dict_set d k v))"
proof (induction d)
  case Nil
  then show ?case by (simp add: dict_keys_def)
next
  case (Cons x d)
  obtain k' v' where x: "x = (k', v')" by (cases x)
  from Cons have "distinct (dict_keys (dict_set d k v))" by (simp add: dict_keys_def)
  moreover have "set (dict_keys (dict_set d k v)) = insert k (set (dict_keys d))"
    by (rule dict_keys_set)
  ultimately show ?case using Cons.prems x by (auto simp: dict_keys_def)
qed

lemma counter_fold_get:
  "dict_get (fold (\<lambda>k d. counter_inc d k) ks d) k =
     (if count_list ks k = 0 then dict_get d k
      else Some (weight_or_0 (dict_get d k) + int (count_list ks k)))"
proof (induction ks arbitrary: d)
  case Nil
  then show ?case by simp
next
  case (Cons x ks)
  show ?case
    by (simp add: Cons.IH dict_get_counter_inc weight_or_0_def)
qed

lemma counter_fold_keys:
  "set (dict_keys (fold (\<lambda>k d. counter_inc d k) ks d)) = set (dict_keys d) \<union> set ks"
  by (induction ks arbitrary: d) (auto simp: dict_keys_counter_inc)

lemma counter_fold_distinct:
  "distinct (dict_keys d) \<Longrightarrow> distinct (dict_keys (fold (\<lambda>k d. counter_inc d k) ks d))"
  by (induction ks arbitrary: d) (simp_all add: counter_inc_def distinct_dict_set)

lemma count_list_Pair:
  "count_list (map (Pair x) xs) (a, b) = (if a = x then count_list xs b else 0)"
  by (induction xs) auto

lemma count_list_distinct: "distinct xs \<Longrightarrow> count_list xs x = (if x \<in> set xs then 1 else 0)"
  by (induction xs) auto

lemma count_combinations2:
  "sorted_wrt (<) xs \<Longrightarrow>
   count_list (combinations2 xs) (a, b) = (if a \<in> set xs \<and> b \<in> set xs \<and> a < b then 1 else 0)"
  for xs :: "'a::linorder list"
proof (induction xs)
  case Nil
  then show ?case by simp
next
  case (Cons x xs)
  then have lt: "\<forall>y \<in> set xs. x < y" and s: "sorted_wrt (<) xs" by simp_all
  from s have d: "distinct xs" by (simp add: strict_sorted_iff)
  have "count_list (combinations2 (x # xs)) (a, b)
      = (if a = x then count_list xs b else 0) + count_list (combinations2 xs) (a, b)"
    by (simp add: count_list_Pair)
  also have "\<dots> = (if a = x then (if b \<in> set xs then 1 else 0) else 0)
      + (if a \<in> set xs \<and> b \<in> set xs \<and> a < b then 1 else 0)"
    by (simp only: Cons.IH [OF s] count_list_distinct [OF d])
  also have "\<dots> = (if a \<in> set (x # xs) \<and> b \<in> set (x # xs) \<and> a < b then 1 else 0)"
    using lt by (auto dest: less_asym)
  finally show ?case .
qed


lemma count_pairs_scene:
  "finite S \<Longrightarrow>
   count_list (combinations2 (sorted_list_of_set S)) (a, b)
     = (if a \<in> S \<and> b \<in> S \<and> a < b then 1 else 0)"
  for S :: "string set"
  by (simp add: count_combinations2)

lemma fold_pairs_concat:
  "fold (\<lambda>x d. fold (\<lambda>k d. counter_inc d k) (P x) d) xs d0
     = fold (\<lambda>k d. counter_inc d k) (concat (map P xs)) d0"
  by (induction xs arbitrary: d0) simp_all

lemma count_interactions_fold:
  "count_interactions scs
     = fold (\<lambda>k d. counter_inc d k)
         (concat (map (\<lambda>S. combinations2 (sorted_list_of_set S)) scs)) []"
  by (simp add: count_interactions_def fold_pairs_concat)

lemma dict_keys_Nil: "dict_keys [] = []"
  by (simp add: dict_keys_def)

lemma count_list_pairs:
  "list_all finite scs \<Longrightarrow>
   int (count_list (concat (map (\<lambda>S. combinations2 (sorted_list_of_set S)) scs)) (a, b))
     = (if a < b then scene_count scs a b else 0)"
  by (induction scs) (simp_all add: scene_count_def count_pairs_scene)

lemma set_pairs:
  "list_all finite scs \<Longrightarrow>
   (a, b) \<in> set (concat (map (\<lambda>S. combinations2 (sorted_list_of_set S)) scs)) \<Longrightarrow> a < b"
  for scs :: "string set list"
proof -
  assume f: "list_all finite scs"
    and m: "(a, b) \<in> set (concat (map (\<lambda>S. combinations2 (sorted_list_of_set S)) scs))"
  from m have "count_list (concat (map (\<lambda>S. combinations2 (sorted_list_of_set S)) scs)) (a, b) \<noteq> 0"
    by (simp only: count_list_0_iff not_not)
  with count_list_pairs [OF f, of a b] show "a < b" by (cases "a < b") simp_all
qed

lemma count_interactions_correct:
  assumes f: "list_all finite scs"
  shows "(a < b \<longrightarrow>
           weight_or_0 (dict_get (count_interactions scs) (a, b)) = scene_count scs a b
           \<and> (dict_has (count_interactions scs) (a, b) \<longleftrightarrow> 0 < scene_count scs a b))
       \<and> (\<forall>(x, y) \<in> set (dict_keys (count_interactions scs)). x < y)
       \<and> distinct (dict_keys (count_interactions scs))"
proof (intro conjI impI)
  let ?ps = "concat (map (\<lambda>S. combinations2 (sorted_list_of_set S)) scs)"
  note c = count_list_pairs [OF f, of a b]
  {
    assume ab: "a < b"
    show "weight_or_0 (dict_get (count_interactions scs) (a, b)) = scene_count scs a b"
      using c ab
      by (simp add: count_interactions_fold counter_fold_get dict_get_Nil weight_or_0_def)
    show "dict_has (count_interactions scs) (a, b) \<longleftrightarrow> 0 < scene_count scs a b"
      using c ab
      by (simp add: count_interactions_fold counter_fold_get dict_get_Nil dict_has_get)
  }
  show "\<forall>(x, y) \<in> set (dict_keys (count_interactions scs)). x < y"
    using set_pairs [OF f]
    by (auto simp: count_interactions_fold counter_fold_keys dict_keys_Nil)
  show "distinct (dict_keys (count_interactions scs))"
    by (simp add: count_interactions_fold counter_fold_distinct dict_keys_Nil)
qed

lemma scenes_finite_add: "scenes_finite st \<Longrightarrow> scenes_finite (add_character nm st)"
  by (simp add: scenes_finite_def add_character_def)

lemma scenes_finite_close: "scenes_finite st \<Longrightarrow> scenes_finite (close_scene st)"
  by (simp add: scenes_finite_def close_scene_def)

lemma scenes_finite_fold:
  "scenes_finite st \<Longrightarrow> scenes_finite (fold (\<lambda>sp. add_character (f sp)) sps st)"
  by (induction sps arbitrary: st) (simp_all add: scenes_finite_add)

lemma scenes_finite_line:
  "scenes_finite st \<Longrightarrow> scenes_finite (process_line_with nm st l)"
  unfolding process_line_with_def Let_def fallback_def
  by (auto simp: scenes_finite_add scenes_finite_close scenes_finite_fold
           split: option.splits resolution.splits)

lemma scenes_finite_lines:
  "scenes_finite st \<Longrightarrow> scenes_finite (fold (\<lambda>l st. process_line_with nm st l) ls st)"
  by (induction ls arbitrary: st) (simp_all add: scenes_finite_line)

lemma parse_lines_finite: "list_all finite (parse_lines_with nm text)"
proof -
  have "scenes_finite scene_init" by (simp add: scenes_finite_def scene_init_def)
  then have "scenes_finite (close_scene
       (fold (\<lambda>l st. process_line_with nm st l) (py_splitlines text) scene_init))"
    by (intro scenes_finite_close scenes_finite_lines)
  then show ?thesis by (simp add: parse_lines_with_def scenes_finite_def)
qed

section \<open>The two parse modes\<close>

lemma wc_match_basic:
  "normal_match_wc line = Some (g, c) \<Longrightarrow> normal_match line = Some g"
  unfolding normal_match_wc_def normal_match_def
  by (auto split: option.splits list.splits if_splits)

lemma scene_part_content: "scene_part (st\<lparr>content := c\<rparr>) = scene_part st"
  by (simp add: scene_part_def)

lemma scene_part_wc_add: "scene_part (wc_add nm k st) = add_character nm (scene_part st)"
  by (simp add: scene_part_def wc_add_def add_character_def)

lemma scene_part_close: "scene_part (wc_close_scene st) = close_scene (scene_part st)"
  by (simp add: scene_part_def wc_close_scene_def close_scene_def)

lemma scene_part_fold:
  "scene_part (fold (\<lambda>sp. wc_add (f sp) k) sps st)
     = fold (\<lambda>sp. add_character (f sp)) sps (scene_part st)"
  by (induction sps arbitrary: st) (simp_all add: scene_part_wc_add)

lemma scene_part_fallback:
  "wc_fallback st line = Inr st' \<Longrightarrow> scene_part st' = fallback (scene_part st) line"
  by (auto simp: wc_fallback_def fallback_def scene_part_wc_add split: option.splits)

lemma process_line_agree:
  assumes agree: "line_agrees raw"
    and run: "process_line_wc_with nm wst raw = Inr wst'"
  shows "scene_part wst' = process_line_with nm (scene_part wst) raw"
proof -
  let ?l = "py_strip raw"
  show ?thesis
  proof (cases "speaker_line ?l")
    case False
    with run show ?thesis
      unfolding process_line_wc_with_def process_line_with_def speaker_line_def Let_def
      by (auto simp: scene_part_close split: if_splits)
  next
    case True
    then have k: "?l \<noteq> []" "\<not> is_credit ?l" "\<not> startswith ?l ''(''" "\<not> is_scene_marker ?l"
      by (simp_all add: speaker_line_def)
    show ?thesis
    proof (cases "normal_match_wc ?l")
      case None
      with agree True have m: "normal_match ?l = None" by (auto simp: line_agrees_def)
      from run None k have "wc_fallback wst ?l = Inr wst'"
        by (simp add: process_line_wc_with_def Let_def)
      from scene_part_fallback [OF this] m k show ?thesis
        by (simp add: process_line_with_def Let_def)
    next
      case (Some gc)
      obtain g c where gc: "gc = (g, c)" by (cases gc)
      from Some gc have mw: "normal_match_wc ?l = Some (g, c)" by simp
      from wc_match_basic [OF mw] have m: "normal_match ?l = Some g" .
      show ?thesis
      proof (cases "primary_path g")
        case Reject
        with run mw k have "wst' = wst\<lparr>content := Some (py_strip c)\<rparr>"
          by (simp add: process_line_wc_with_def Let_def)
        with Reject m k show ?thesis
          by (simp add: process_line_with_def Let_def scene_part_content)
      next
        case Defer
        with run mw k have "wc_fallback (wst\<lparr>content := Some (py_strip c)\<rparr>) ?l = Inr wst'"
          by (simp add: process_line_wc_with_def Let_def)
        from scene_part_fallback [OF this] Defer m k show ?thesis
          by (simp add: process_line_with_def Let_def scene_part_content)
      next
        case (Speakers sps)
        with run mw k have "wst' = fold (\<lambda>speaker. wc_add (normalize nm speaker)
                                   (int (length (py_split (py_strip c)))))
                            sps (wst\<lparr>content := Some (py_strip c)\<rparr>)"
          by (simp add: process_line_wc_with_def Let_def)
        with Speakers m k show ?thesis
          by (simp add: process_line_with_def Let_def scene_part_fold scene_part_content)
      qed
    qed
  qed
qed

lemma run_lines_agree:
  "list_all line_agrees ls \<Longrightarrow> run_lines_wc nm wst ls = Inr wst' \<Longrightarrow>
   scene_part wst' = fold (\<lambda>l st. process_line_with nm st l) ls (scene_part wst)"
proof (induction ls arbitrary: wst)
  case Nil
  then show ?case by simp
next
  case (Cons l ls)
  from Cons.prems(2) obtain w1 where w1: "process_line_wc_with nm wst l = Inr w1"
    and rest: "run_lines_wc nm w1 ls = Inr wst'"
    by (auto split: sum.splits)
  from Cons.prems(1) have a: "line_agrees l" and as: "list_all line_agrees ls" by simp_all
  from process_line_agree [OF a w1] Cons.IH [OF as rest] show ?case by simp
qed

lemma scene_part_init: "scene_part wc_init = scene_init"
  by (simp add: scene_part_def wc_init_def scene_init_def)

lemma scenes_finite_fallback: "scenes_finite st \<Longrightarrow> scenes_finite (fallback st line)"
  by (simp add: fallback_def scenes_finite_add split: option.splits)

lemma scenes_finite_line_wc:
  assumes fin: "scenes_finite (scene_part wst)"
    and run: "process_line_wc_with nm wst raw = Inr wst'"
  shows "scenes_finite (scene_part wst')"
proof -
  let ?l = "py_strip raw"
  have fb: "scenes_finite (scene_part st')"
    if "wc_fallback st ?l = Inr st'" "scenes_finite (scene_part st)" for st st'
    using scene_part_fallback [OF that(1)] scenes_finite_fallback [OF that(2)] by simp
  show ?thesis
  proof (cases "speaker_line ?l")
    case False
    with run fin show ?thesis
      unfolding process_line_wc_with_def speaker_line_def Let_def
      by (auto simp: scene_part_close scenes_finite_close split: if_splits)
  next
    case True
    then have k: "?l \<noteq> []" "\<not> is_credit ?l" "\<not> startswith ?l ''(''" "\<not> is_scene_marker ?l"
      by (simp_all add: speaker_line_def)
    show ?thesis
    proof (cases "normal_match_wc ?l")
      case None
      with run k have "wc_fallback wst ?l = Inr wst'"
        by (simp add: process_line_wc_with_def Let_def)
      from fb [OF this fin] show ?thesis .
    next
      case (Some gc)
      obtain g c where gc: "gc = (g, c)" by (cases gc)
      from Some gc have mw: "normal_match_wc ?l = Some (g, c)" by simp
      have fin1: "scenes_finite (scene_part (wst\<lparr>content := Some (py_strip c)\<rparr>))"
        using fin by (simp add: scene_part_content)
      show ?thesis
      proof (cases "primary_path g")
        case Reject
        with run mw k have "wst' = wst\<lparr>content := Some (py_strip c)\<rparr>"
          by (simp add: process_line_wc_with_def Let_def)
        with fin1 show ?thesis by simp
      next
        case Defer
        with run mw k have "wc_fallback (wst\<lparr>content := Some (py_strip c)\<rparr>) ?l = Inr wst'"
          by (simp add: process_line_wc_with_def Let_def)
        from fb [OF this fin1] show ?thesis .
      next
        case (Speakers sps)
        with run mw k have "wst' = fold (\<lambda>speaker. wc_add (normalize nm speaker)
                                   (int (length (py_split (py_strip c)))))
                            sps (wst\<lparr>content := Some (py_strip c)\<rparr>)"
          by (simp add: process_line_wc_with_def Let_def)
        with fin1 show ?thesis
          by (simp add: scene_part_fold scenes_finite_fold)
      qed
    qed
  qed
qed

lemma scenes_finite_lines_wc:
  "scenes_finite (scene_part wst) \<Longrightarrow> run_lines_wc nm wst ls = Inr wst' \<Longrightarrow>
   scenes_finite (scene_part wst')"
proof (induction ls arbitrary: wst)
  case Nil
  then show ?case by simp
next
  case (Cons l ls)
  from Cons.prems(2) obtain w1 where w1: "process_line_wc_with nm wst l = Inr w1"
    and rest: "run_lines_wc nm w1 ls = Inr wst'"
    by (auto split: sum.splits)
  from Cons.IH [OF scenes_finite_line_wc [OF Cons.prems(1) w1] rest] show ?case .
qed

lemma parse_wordcount_finite:
  assumes "parse_episode_file_with_wordcount text = Inr (scs, table, wc)"
  shows "list_all finite scs \<and> table = count_interactions scs"
proof -
  from assms obtain wst where run: "run_lines_wc NAME_MAP wc_init (py_splitlines text) = Inr wst"
    and scs: "scs = scenes (wc_close_scene wst)"
    and table: "table = count_interactions scs"
    by (auto simp: parse_episode_file_with_wordcount_def Let_def split: sum.splits)
  have "scenes_finite (scene_part wc_init)"
    by (simp add: scene_part_init scenes_finite_def scene_init_def)
  from scenes_finite_lines_wc [OF this run] have "scenes_finite (scene_part wst)" .
  then have "scenes_finite (scene_part (wc_close_scene wst))"
    by (simp add: scene_part_close scenes_finite_close)
  then have "list_all finite scs"
    by (simp add: scs scenes_finite_def scene_part_def)
  with table show ?thesis by simp
qed

section \<open>Claims about the graph model\<close>

text \<open>
  C3. After every sequence of graph mutations (\<^verbatim>\<open>add_node\<close>, \<^verbatim>\<open>add_edge\<close>,
  \<^verbatim>\<open>build_graph_from_interactions\<close>, also when it stops at a malformed pair key, and the two
  popularity additions) applied to a fresh graph, every node's \<^verbatim>\<open>weighted_degree\<close> is the sum
  of the values of its \<^verbatim>\<open>neighbors\<close> dictionary and its \<^verbatim>\<open>degree\<close> is the number of entries
  of that dictionary.
\<close>

theorem degree_invariant:
  "\<forall>(k, n) \<in> set (nodes (run_mutations ms)).
     weighted_degree n = sum_list (map snd (neighbors n)) \<and>
     degree n = int (length (neighbors n))"
  using graph_ok_run [of ms] by (auto simp: graph_ok_def node_ok_def)

theorem degree_invariant_witness:
  "(''Ross'',
    \<lparr>name = ''Ross'', neighbors = [(''Monica'', 5), (''Joey'', 1)], degree = 2,
     weighted_degree = 6, pop_scores = [8::int], effective_pop_scores = []\<rparr>)
     \<in> set (nodes (run_mutations
          [Add_edge ''Monica'' ''Ross'' 3,
           Build_graph_from_interactions
             [(''S01E01'', [(''Monica-Ross'', 2), (''Joey-Ross'', 1), (''Rachel'', 4)])],
           Add_popularity_by_presence [(''S01E01'', [''Ross''])] [(''S01E01'', Some 8)]]))
   \<and> (6::int) = sum_list (map snd [(''Monica'', 5), (''Joey'', 1)])
   \<and> (2::int) = int (length [(''Monica'', 5::int), (''Joey'', 1)])"
proof -
  let ?ms = "[Add_edge ''Monica'' ''Ross'' 3,
           Build_graph_from_interactions
             [(''S01E01'', [(''Monica-Ross'', 2), (''Joey-Ross'', 1), (''Rachel'', 4)])],
           Add_popularity_by_presence [(''S01E01'', [''Ross''])] [(''S01E01'', Some 8)]]
            :: int mutation list"
  let ?n = "\<lparr>name = ''Ross'', neighbors = [(''Monica'', 5), (''Joey'', 1)], degree = 2,
     weighted_degree = 6, pop_scores = [8::int], effective_pop_scores = []\<rparr>"
  let ?g1 = "\<lparr>nodes =
     [(''Monica'', \<lparr>name = ''Monica'', neighbors = [(''Ross'', 3)], degree = 1,
         weighted_degree = 3, pop_scores = [], effective_pop_scores = []\<rparr>),
      (''Ross'', \<lparr>name = ''Ross'', neighbors = [(''Monica'', 3)], degree = 1,
         weighted_degree = 3, pop_scores = [], effective_pop_scores = []\<rparr>)]\<rparr> :: int Graph"
  let ?g2 = "\<lparr>nodes =
     [(''Monica'', \<lparr>name = ''Monica'', neighbors = [(''Ross'', 5)], degree = 1,
         weighted_degree = 5, pop_scores = [], effective_pop_scores = []\<rparr>),
      (''Ross'', \<lparr>name = ''Ross'', neighbors = [(''Monica'', 5)], degree = 1,
         weighted_degree = 5, pop_scores = [], effective_pop_scores = []\<rparr>)]\<rparr> :: int Graph"
  let ?g3 = "\<lparr>nodes =
     [(''Monica'', \<lparr>name = ''Monica'', neighbors = [(''Ross'', 5)], degree = 1,
         weighted_degree = 5, pop_scores = [], effective_pop_scores = []\<rparr>),
      (''Ross'', \<lparr>name = ''Ross'', neighbors = [(''Monica'', 5), (''Joey'', 1)], degree = 2,
         weighted_degree = 6, pop_scores = [], effective_pop_scores = []\<rparr>),
      (''Joey'', \<lparr>name = ''Joey'', neighbors = [(''Ross'', 1)], degree = 1,
         weighted_degree = 1, pop_scores = [], effective_pop_scores = []\<rparr>)]\<rparr> :: int Graph"
  have s1: "add_edge Graph_init ''Monica'' ''Ross'' 3 = ?g1"
    by (simp add: add_edge_def add_node_def update_node_def add_neighbor_def dict_get_def
          dict_has_def dict_keys_def Node_init_def Graph_init_def)
  have s2: "add_edge ?g1 ''Monica'' ''Ross'' 2 = ?g2"
    by (simp add: add_edge_def add_node_def update_node_def add_neighbor_def dict_get_def
          dict_has_def dict_keys_def Node_init_def)
  have s3: "add_edge ?g2 ''Joey'' ''Ross'' 1 = ?g3"
    by (simp add: add_edge_def add_node_def update_node_def add_neighbor_def dict_get_def
          dict_has_def dict_keys_def Node_init_def)
  have p1: "split_pair ''Monica-Ross'' = Some (''Monica'', ''Ross'')"
    and p2: "split_pair ''Joey-Ross'' = Some (''Joey'', ''Ross'')"
    and p3: "split_pair ''Rachel'' = None"
    by (simp_all add: split_pair_def)
  have s4: "build_graph_from_interactions ?g1
       [(''S01E01'', [(''Monica-Ross'', 2), (''Joey-Ross'', 1), (''Rachel'', 4)])]
       = (?g3, Some ValueError)"
    by (simp add: p1 p2 p3 s2 s3)
  have s5: "add_popularity_by_presence ?g3 [(''S01E01'', [''Ross''])] [(''S01E01'', Some 8)]
       = \<lparr>nodes = [(''Monica'', \<lparr>name = ''Monica'', neighbors = [(''Ross'', 5)], degree = 1,
         weighted_degree = 5, pop_scores = [], effective_pop_scores = []\<rparr>),
      (''Ross'', ?n),
      (''Joey'', \<lparr>name = ''Joey'', neighbors = [(''Ross'', 1)], degree = 1,
         weighted_degree = 1, pop_scores = [], effective_pop_scores = []\<rparr>)]\<rparr>"
    by (simp add: add_node_def update_node_def add_popularity_score_def dict_get_def
          dict_has_def dict_keys_def)
  have "run_mutations ?ms = \<lparr>nodes = [(''Monica'', \<lparr>name = ''Monica'', neighbors = [(''Ross'', 5)], degree = 1,
         weighted_degree = 5, pop_scores = [], effective_pop_scores = []\<rparr>),
      (''Ross'', ?n),
      (''Joey'', \<lparr>name = ''Joey'', neighbors = [(''Ross'', 1)], degree = 1,
         weighted_degree = 1, pop_scores = [], effective_pop_scores = []\<rparr>)]\<rparr>"
    by (simp only: run_mutations_def fold_simps mutate.simps s1 s4 s5 fst_conv)
  then have mem: "(''Ross'', ?n) \<in> set (nodes (run_mutations ?ms))"
    by simp
  have "weighted_degree ?n = sum_list (map snd (neighbors ?n)) \<and>
        degree ?n = int (length (neighbors ?n))"
    using degree_invariant [of ?ms] mem by blast
  then have "(6::int) = sum_list (map snd [(''Monica'', 5), (''Joey'', 1)])
      \<and> (2::int) = int (length [(''Monica'', 5::int), (''Joey'', 1)])"
    by simp
  with mem show ?thesis by (rule conjI)
qed




text \<open>
  C10 (as amended). For every graph, name \<open>a\<close> and weight \<open>w\<close>, \<^verbatim>\<open>add_edge(a, a, w)\<close> makes \<open>a\<close>
  its own neighbor, adds \<open>2 * w\<close> to the adjacency entry of \<open>a\<close> on itself (which is \<open>2 * w\<close>
  when there was no such entry) and \<open>2 * w\<close> to the weighted degree of \<open>a\<close>, and increments
  the degree of \<open>a\<close> by 1 exactly when \<open>a\<close> was not its own neighbor before.
\<close>

theorem add_edge_self_loop:
  "adjacency (add_edge g a a w) a a = Some (weight_or_0 (adjacency g a a) + 2 * w)
   \<and> degree_of (add_edge g a a w) a
       = degree_of g a + (if adjacency g a a = None then 1 else 0)
   \<and> weighted_degree_of (add_edge g a a w) a = weighted_degree_of g a + 2 * w"
  by (simp add: adjacency_def degree_of_def weighted_degree_of_def get_add_edge
        neighbors_add_neighbor degree_add_neighbor weighted_degree_add_neighbor
        weight_or_0_def)
     (auto simp: node_or_new_def Node_init_def dict_get_Nil split: option.splits)

text \<open>
  C10 as stated fails on a graph in which \<open>a\<close> is already its own neighbor: the entry is
  not \<open>2 * w\<close> and the degree does not grow.
\<close>

theorem add_edge_self_loop_counterexample:
  "adjacency (add_edge (add_edge (Graph_init :: int Graph) ''Joey'' ''Joey'' 1)
       ''Joey'' ''Joey'' 1) ''Joey'' ''Joey'' \<noteq> Some (2 * 1)
   \<and> degree_of (add_edge (add_edge (Graph_init :: int Graph) ''Joey'' ''Joey'' 1)
       ''Joey'' ''Joey'' 1) ''Joey''
     \<noteq> degree_of (add_edge (Graph_init :: int Graph) ''Joey'' ''Joey'' 1) ''Joey'' + 1"
  by (simp add: adjacency_def degree_of_def get_add_edge neighbors_add_neighbor
        degree_add_neighbor node_or_new_add_edge weight_or_0_def)
     (simp add: node_or_new_def Graph_init_def dict_get_Nil Node_init_def)



text \<open>
  C5. For every graph built by the graph operations and all names \<open>s\<close> and \<open>e\<close>:
  \<^verbatim>\<open>shortest_path(s, e)\<close> returns \<^verbatim>\<open>None\<close> exactly when \<open>s\<close> or \<open>e\<close> is not a node or \<open>e\<close> cannot be
  reached from \<open>s\<close> along adjacency entries; otherwise it returns (without raising) a list of
  names that starts at \<open>s\<close>, ends at \<open>e\<close>, has consecutive names adjacent, and is no longer
  than any other such list, so its hop count is minimal; and \<^verbatim>\<open>shortest_path(s, s)\<close> is \<open>[s]\<close>
  when \<open>s\<close> is a node.
\<close>

theorem shortest_path_correct:
  "(shortest_path (run_mutations ms) s e = Inr None \<longleftrightarrow>
      \<not> dict_has (nodes (run_mutations ms)) s \<or> \<not> dict_has (nodes (run_mutations ms)) e
      \<or> \<not> (\<exists>p. path_from_to (run_mutations ms) s e p))
   \<and> (shortest_path (run_mutations ms) s e \<noteq> Inr None \<longrightarrow>
        (\<exists>p. shortest_path (run_mutations ms) s e = Inr (Some p)
           \<and> path_from_to (run_mutations ms) s e p
           \<and> (\<forall>q. path_from_to (run_mutations ms) s e q \<longrightarrow> length p \<le> length q)))
   \<and> (dict_has (nodes (run_mutations ms)) s \<longrightarrow>
        shortest_path (run_mutations ms) s s = Inr (Some [s]))"
proof -
  let ?g = "run_mutations ms"
  from shortest_path_wf [OF wf_graph_run, of ms s e]
  obtain r where r: "shortest_path ?g s e = Inr r"
    and c: "case r of
        None \<Rightarrow> \<not> dict_has (nodes ?g) s \<or> \<not> dict_has (nodes ?g) e
                 \<or> \<not> (\<exists>p. path_from_to ?g s e p)
      | Some p \<Rightarrow> dict_has (nodes ?g) s \<and> dict_has (nodes ?g) e \<and> path_from_to ?g s e p
          \<and> (\<forall>w. path_from_to ?g s e w \<longrightarrow> length p \<le> length w)"
    by blast
  have a: "shortest_path ?g s e = Inr None \<longleftrightarrow>
      \<not> dict_has (nodes ?g) s \<or> \<not> dict_has (nodes ?g) e \<or> \<not> (\<exists>p. path_from_to ?g s e p)"
  proof (cases r)
    case None
    with r c show ?thesis by simp
  next
    case (Some p)
    with r c show ?thesis by auto
  qed
  have b: "shortest_path ?g s e \<noteq> Inr None \<longrightarrow>
        (\<exists>p. shortest_path ?g s e = Inr (Some p) \<and> path_from_to ?g s e p
           \<and> (\<forall>q. path_from_to ?g s e q \<longrightarrow> length p \<le> length q))"
  proof (cases r)
    case None
    with r show ?thesis by simp
  next
    case (Some p)
    with r c show ?thesis by simp
  qed
  have d: "dict_has (nodes ?g) s \<longrightarrow> shortest_path ?g s s = Inr (Some [s])"
    by (simp add: shortest_path_def)
  from a b d show ?thesis by (intro conjI)
qed

theorem shortest_path_correct_witness:
  "dict_has (nodes (run_mutations
        [Add_edge ''Monica'' ''Ross'' 1, Add_edge ''Ross'' ''Joey'' 1, Add_node ''Gunther''] :: int Graph)) ''Monica''
   \<and> dict_has (nodes (run_mutations
        [Add_edge ''Monica'' ''Ross'' 1, Add_edge ''Ross'' ''Joey'' 1, Add_node ''Gunther''] :: int Graph)) ''Joey''
   \<and> shortest_path (run_mutations
        [Add_edge ''Monica'' ''Ross'' 1, Add_edge ''Ross'' ''Joey'' 1, Add_node ''Gunther''] :: int Graph) ''Monica'' ''Joey'' = Inr (Some [''Monica'', ''Ross'', ''Joey''])
   \<and> path_from_to (run_mutations
        [Add_edge ''Monica'' ''Ross'' 1, Add_edge ''Ross'' ''Joey'' 1, Add_node ''Gunther''] :: int Graph) ''Monica'' ''Joey'' [''Monica'', ''Ross'', ''Joey'']
   \<and> \<not> (\<exists>q. path_from_to (run_mutations
        [Add_edge ''Monica'' ''Ross'' 1, Add_edge ''Ross'' ''Joey'' 1, Add_node ''Gunther''] :: int Graph) ''Monica'' ''Joey'' q \<and> length q < 3)
   \<and> shortest_path (run_mutations
        [Add_edge ''Monica'' ''Ross'' 1, Add_edge ''Ross'' ''Joey'' 1, Add_node ''Gunther''] :: int Graph) ''Monica'' ''Gunther'' = Inr None
   \<and> \<not> (\<exists>p. path_from_to (run_mutations
        [Add_edge ''Monica'' ''Ross'' 1, Add_edge ''Ross'' ''Joey'' 1, Add_node ''Gunther''] :: int Graph) ''Monica'' ''Gunther'' p)
   \<and> shortest_path (run_mutations
        [Add_edge ''Monica'' ''Ross'' 1, Add_edge ''Ross'' ''Joey'' 1, Add_node ''Gunther''] :: int Graph) ''Monica'' ''Monica'' = Inr (Some [''Monica''])"
proof -
  let ?ms = "[Add_edge ''Monica'' ''Ross'' 1, Add_edge ''Ross'' ''Joey'' 1, Add_node ''Gunther''] :: int mutation list"
  let ?g1 = "\<lparr>nodes =
      [(''Monica'', \<lparr>name = ''Monica'', neighbors = [(''Ross'', 1)], degree = 1,
        weighted_degree = 1, pop_scores = [], effective_pop_scores = []\<rparr>),
       (''Ross'', \<lparr>name = ''Ross'', neighbors = [(''Monica'', 1)], degree = 1,
        weighted_degree = 1, pop_scores = [], effective_pop_scores = []\<rparr>)]\<rparr> :: int Graph"
  let ?g2 = "\<lparr>nodes =
      [(''Monica'', \<lparr>name = ''Monica'', neighbors = [(''Ross'', 1)], degree = 1,
        weighted_degree = 1, pop_scores = [], effective_pop_scores = []\<rparr>),
       (''Ross'', \<lparr>name = ''Ross'', neighbors = [(''Monica'', 1), (''Joey'', 1)], degree = 2,
        weighted_degree = 2, pop_scores = [], effective_pop_scores = []\<rparr>),
       (''Joey'', \<lparr>name = ''Joey'', neighbors = [(''Ross'', 1)], degree = 1,
        weighted_degree = 1, pop_scores = [], effective_pop_scores = []\<rparr>)]\<rparr> :: int Graph"
  let ?g3 = "\<lparr>nodes =
      [(''Monica'', \<lparr>name = ''Monica'', neighbors = [(''Ross'', 1)], degree = 1,
        weighted_degree = 1, pop_scores = [], effective_pop_scores = []\<rparr>),
       (''Ross'', \<lparr>name = ''Ross'', neighbors = [(''Monica'', 1), (''Joey'', 1)], degree = 2,
        weighted_degree = 2, pop_scores = [], effective_pop_scores = []\<rparr>),
       (''Joey'', \<lparr>name = ''Joey'', neighbors = [(''Ross'', 1)], degree = 1,
        weighted_degree = 1, pop_scores = [], effective_pop_scores = []\<rparr>),
       (''Gunther'', \<lparr>name = ''Gunther'', neighbors = [], degree = 0,
        weighted_degree = 0, pop_scores = [], effective_pop_scores = []\<rparr>)]\<rparr> :: int Graph"
  have s1: "add_edge Graph_init ''Monica'' ''Ross'' 1 = ?g1"
    by (simp add: add_edge_def add_node_def update_node_def add_neighbor_def dict_get_def
          dict_has_def dict_keys_def Node_init_def Graph_init_def)
  have s2: "add_edge ?g1 ''Ross'' ''Joey'' 1 = ?g2"
    by (simp add: add_edge_def add_node_def update_node_def add_neighbor_def dict_get_def
          dict_has_def dict_keys_def Node_init_def)
  have s3: "add_node ?g2 ''Gunther'' = ?g3"
    by (simp add: add_node_def dict_has_def dict_keys_def Node_init_def)
  have g: "run_mutations ?ms = ?g3"
    by (simp only: run_mutations_def fold_simps mutate.simps s1 s2 s3)
  have m: "dict_has (nodes ?g3) ''Monica''" and j: "dict_has (nodes ?g3) ''Joey''"
    and gu: "dict_has (nodes ?g3) ''Gunther''"
    by (simp_all add: dict_has_def dict_keys_def)
  have p1: "shortest_path ?g3 ''Monica'' ''Joey'' = Inr (Some [''Monica'', ''Ross'', ''Joey''])"
    by (simp add: shortest_path_def dict_has_def dict_keys_def dict_get_def visit_def)
  have p2: "shortest_path ?g3 ''Monica'' ''Gunther'' = Inr None"
    by (simp add: shortest_path_def dict_has_def dict_keys_def dict_get_def visit_def)
  note inst1 = shortest_path_correct [of ?ms "''Monica''" "''Joey''", unfolded g]
  note inst2 = shortest_path_correct [of ?ms "''Monica''" "''Gunther''", unfolded g]
  from inst1 p1 have q1: "path_from_to ?g3 ''Monica'' ''Joey'' [''Monica'', ''Ross'', ''Joey'']"
    and q2: "\<forall>q. path_from_to ?g3 ''Monica'' ''Joey'' q \<longrightarrow> 3 \<le> length q"
    by auto
  from q2 have q3: "\<not> (\<exists>q. path_from_to ?g3 ''Monica'' ''Joey'' q \<and> length q < 3)"
    by (auto simp: not_less)
  from inst2 p2 m gu have q4: "\<not> (\<exists>p. path_from_to ?g3 ''Monica'' ''Gunther'' p)"
    by blast
  from inst1 m have q5: "shortest_path ?g3 ''Monica'' ''Monica'' = Inr (Some [''Monica''])"
    by blast
  show ?thesis
    unfolding g by (intro conjI m j p1 q1 q3 p2 q4 q5)
qed

section \<open>Claims about the script parser\<close>

text \<open>
  C7 (as amended). The line \<^verbatim>\<open>Monica: Hi! How's it going?\<close>, in any state of the parse, adds
  the character Monica to the current scene, and in word-count mode adds 4, the number of
  whitespace-separated words of the dialogue text, to Monica's word count.
\<close>

theorem monica_line:
  "process_line st ''Monica: Hi! How's it going?''
     = st\<lparr>current_scene := insert ''Monica'' (current_scene st)\<rparr>
   \<and> process_line_wc_with NAME_MAP wst ''Monica: Hi! How's it going?''
     = Inr (wst\<lparr>current_scene := insert ''Monica'' (current_scene wst),
                word_count := dict_set (word_count wst) ''Monica''
                  ((case dict_get (word_count wst) ''Monica'' of None \<Rightarrow> 0 | Some c \<Rightarrow> c) + 4),
                content := Some ''Hi! How's it going?''\<rparr>)"
proof -
  let ?l = "''Monica: Hi! How's it going?''"
  have strip: "py_strip ?l = ?l" by code_simp
  have kind: "\<not> is_credit ?l" "\<not> startswith ?l ''(''" "\<not> is_scene_marker ?l"
    by code_simp+
  have m: "normal_match ?l = Some ''Monica''" by code_simp
  have mw: "normal_match_wc ?l = Some (''Monica'', ''Hi! How's it going?'')" by code_simp
  have p: "primary_path ''Monica'' = Speakers [''Monica'']" by code_simp
  have n: "normalize NAME_MAP ''Monica'' = ''Monica''" by code_simp
  have c: "py_strip ''Hi! How's it going?'' = ''Hi! How's it going?''" by code_simp
  have w: "int (length (py_split ''Hi! How's it going?'')) = 4" by code_simp
  have a: "process_line st ?l = st\<lparr>current_scene := insert ''Monica'' (current_scene st)\<rparr>"
    unfolding process_line_def process_line_with_def strip
    by (simp add: kind m p n add_character_def)
  have b: "process_line_wc_with NAME_MAP wst ?l
     = Inr (wst\<lparr>current_scene := insert ''Monica'' (current_scene wst),
                word_count := dict_set (word_count wst) ''Monica''
                  ((case dict_get (word_count wst) ''Monica'' of None \<Rightarrow> 0 | Some c \<Rightarrow> c) + 4),
                content := Some ''Hi! How's it going?''\<rparr>)"
    unfolding process_line_wc_with_def strip
    by (simp add: kind mw p n c w wc_add_def)
  from a b show ?thesis by (rule conjI)
qed

text \<open>
  C7 as stated fails: a whole parse of the line in word-count mode gives Monica the word
  count 4, not 5.
\<close>

theorem monica_line_counterexample:
  "parse_episode_file_with_wordcount ''Monica: Hi! How's it going?''
     = Inr ([{''Monica''}], [], [(''Monica'', 4)])
   \<and> dict_get [(''Monica'', 4::int)] ''Monica'' \<noteq> Some 5"
proof -
  let ?l = "''Monica: Hi! How's it going?''"
  have lines: "py_splitlines ?l = [?l]" by code_simp
  have strip: "py_strip ?l = ?l" by code_simp
  have kind: "\<not> is_credit ?l" "\<not> startswith ?l ''(''" "\<not> is_scene_marker ?l"
    by code_simp+
  have mw: "normal_match_wc ?l = Some (''Monica'', ''Hi! How's it going?'')" by code_simp
  have p: "primary_path ''Monica'' = Speakers [''Monica'']" by code_simp
  have n: "normalize NAME_MAP ''Monica'' = ''Monica''" by code_simp
  have c: "py_strip ''Hi! How's it going?'' = ''Hi! How's it going?''" by code_simp
  have w: "int (length (py_split ''Hi! How's it going?'')) = 4" by code_simp
  have b: "process_line_wc_with NAME_MAP wc_init ?l
     = Inr \<lparr>scenes = [], current_scene = {''Monica''}, word_count = [(''Monica'', 4)],
            content = Some ''Hi! How's it going?''\<rparr>"
    unfolding process_line_wc_with_def strip
    by (simp add: kind mw p n c w wc_add_def wc_init_def dict_get_def)
  have "parse_episode_file_with_wordcount ?l = Inr ([{''Monica''}], [], [(''Monica'', 4)])"
    unfolding parse_episode_file_with_wordcount_def lines
    by (simp add: b wc_close_scene_def count_interactions_single)
  then show ?thesis by (simp add: dict_get_def)
qed

text \<open>
  C8. The line \<^verbatim>\<open>Phoebe shakes her hand and says: Phoe-Be.\<close> matches the speaker pattern, is
  deferred by the action-word rule, and is resolved by the fallback path to Phoebe, the only
  principal name that occurs in its prefix. The line adds exactly Phoebe to the current
  scene, whatever the alias table holds.
\<close>

theorem phoebe_line:
  "normal_match ''Phoebe shakes her hand and says: Phoe-Be.''
     = Some ''Phoebe shakes her hand and says''
   \<and> primary_path ''Phoebe shakes her hand and says'' = Defer
   \<and> filter (\<lambda>nm. is_substring (py_lower nm)
          (fallback_prefix ''Phoebe shakes her hand and says: Phoe-Be.'')) MAIN_CHARS
       = [''Phoebe'']
   \<and> fallback_path ''Phoebe shakes her hand and says: Phoe-Be.'' = Some ''Phoebe''
   \<and> process_line_with name_map st ''Phoebe shakes her hand and says: Phoe-Be.''
       = st\<lparr>current_scene := insert ''Phoebe'' (current_scene st)\<rparr>
   \<and> parse_lines_with name_map ''Phoebe shakes her hand and says: Phoe-Be.'' = [{''Phoebe''}]
   \<and> parse_episode_file ''Phoebe shakes her hand and says: Phoe-Be.'' = ([{''Phoebe''}], [])"
proof -
  let ?l = "''Phoebe shakes her hand and says: Phoe-Be.''"
  have lines: "py_splitlines ?l = [?l]" by code_simp
  have strip: "py_strip ?l = ?l" by code_simp
  have kind: "?l \<noteq> []" "\<not> is_credit ?l" "\<not> startswith ?l ''(''" "\<not> is_scene_marker ?l"
    by code_simp+
  have m: "normal_match ?l = Some ''Phoebe shakes her hand and says''" by code_simp
  have p: "primary_path ''Phoebe shakes her hand and says'' = Defer" by code_simp
  have s: "filter (\<lambda>nm. is_substring (py_lower nm) (fallback_prefix ?l)) MAIN_CHARS
       = [''Phoebe'']" by code_simp
  have f: "fallback_path ?l = Some ''Phoebe''" by code_simp
  have a: "process_line_with name_map st ?l
       = st\<lparr>current_scene := insert ''Phoebe'' (current_scene st)\<rparr>" for st name_map
    unfolding process_line_with_def strip
    by (simp add: kind m p f fallback_def add_character_def)
  have b: "parse_lines_with name_map ?l = [{''Phoebe''}]" for name_map
    unfolding parse_single_line [OF lines] a
    by (simp add: close_scene_def scene_init_def)
  have c: "parse_episode_file ?l = ([{''Phoebe''}], [])"
    unfolding parse_episode_file_def b by (simp add: count_interactions_single)
  from m p s f a b c show ?thesis by (intro conjI)
qed

text \<open>
  C6. The claim asks the fallback to reject a line when a single word of its normalized
  prefix is in the group-speaker set or in the generic-role set, by the rule of step 1 of the
  primary path. The fallback compares the single words with the group-indicator set only.
  The line \<^verbatim>\<open>monica and all: hi\<close> fails the speaker pattern, as it has no capital first
  letter, and reaches the fallback; the word \<^verbatim>\<open>all\<close> of its prefix is in the group-speaker
  set, yet the fallback resolves the line to Monica and the parse returns the scene
  \<open>{Monica}\<close>. The primary path rejects the same prefix: the parse of
  \<^verbatim>\<open>Monica and all: hi\<close> returns no scene. The same happens with the word \<^verbatim>\<open>waiter\<close> of the
  generic-role set, and in \<^verbatim>\<open>parse_episode_file_with_wordcount\<close>, whose fallback has the same
  three tests.
\<close>

theorem fallback_misses_word_rule:
  "reaches_fallback (py_strip ''monica and all: hi'')
   \<and> ''all'' \<in> set (words_no_ap (fallback_prefix ''monica and all: hi''))
   \<and> ''all'' \<in> set GROUP_SPEAKER_PHRASES
   \<and> fallback_path ''monica and all: hi'' = Some ''Monica''
   \<and> parse_episode_file ''monica and all: hi'' = ([{''Monica''}], [])
   \<and> primary_path ''Monica and all'' = Reject
   \<and> parse_episode_file ''Monica and all: hi'' = ([], [])
   \<and> reaches_fallback (py_strip ''monica and the waiter: hi'')
   \<and> ''waiter'' \<in> set (words_no_ap (fallback_prefix ''monica and the waiter: hi''))
   \<and> ''waiter'' \<in> set GENERIC_ROLES
   \<and> fallback_path ''monica and the waiter: hi'' = Some ''Monica''
   \<and> parse_episode_file ''monica and the waiter: hi'' = ([{''Monica''}], [])
   \<and> primary_path ''Monica and the waiter'' = Reject
   \<and> parse_episode_file ''Monica and the waiter: hi'' = ([], [])
   \<and> reaches_fallback_wc (py_strip ''monica and all: hi'')
   \<and> parse_episode_file_with_wordcount (''Ross: yes'' @ [CHR 0x0A] @ ''monica and all: hi'')
       = Inr ([{''Monica'', ''Ross''}], [((''Monica'', ''Ross''), 1)],
              [(''Ross'', 1), (''Monica'', 3)])
   \<and> parse_episode_file_with_wordcount (''Ross: yes'' @ [CHR 0x0A] @ ''Monica and all: hi'')
       = Inr ([{''Ross''}], [], [(''Ross'', 1)])"
proof -
  have a1: "reaches_fallback (py_strip ''monica and all: hi'')" by code_simp
  have a2: "''all'' \<in> set (words_no_ap (fallback_prefix ''monica and all: hi''))" by code_simp
  have a3: "''all'' \<in> set GROUP_SPEAKER_PHRASES" by code_simp
  have a4: "fallback_path ''monica and all: hi'' = Some ''Monica''" by code_simp
  have a5: "parse_episode_file ''monica and all: hi'' = ([{''Monica''}], [])" by code_simp
  have a6: "primary_path ''Monica and all'' = Reject" by code_simp
  have a7: "parse_episode_file ''Monica and all: hi'' = ([], [])" by code_simp
  have b1: "reaches_fallback (py_strip ''monica and the waiter: hi'')" by code_simp
  have b2: "''waiter'' \<in> set (words_no_ap (fallback_prefix ''monica and the waiter: hi''))"
    by code_simp
  have b3: "''waiter'' \<in> set GENERIC_ROLES" by code_simp
  have b4: "fallback_path ''monica and the waiter: hi'' = Some ''Monica''" by code_simp
  have b5: "parse_episode_file ''monica and the waiter: hi'' = ([{''Monica''}], [])"
    by code_simp
  have b6: "primary_path ''Monica and the waiter'' = Reject" by code_simp
  have b7: "parse_episode_file ''Monica and the waiter: hi'' = ([], [])" by code_simp
  have c1: "reaches_fallback_wc (py_strip ''monica and all: hi'')" by code_simp
  have c2: "parse_episode_file_with_wordcount
        (''Ross: yes'' @ [CHR 0x0A] @ ''monica and all: hi'')
       = Inr ([{''Monica'', ''Ross''}], [((''Monica'', ''Ross''), 1)],
              [(''Ross'', 1), (''Monica'', 3)])" by code_simp
  have c3: "parse_episode_file_with_wordcount
        (''Ross: yes'' @ [CHR 0x0A] @ ''Monica and all: hi'')
       = Inr ([{''Ross''}], [], [(''Ross'', 1)])" by code_simp
  from a1 a2 a3 a4 a5 a6 a7 b1 b2 b3 b4 b5 b6 b7 c1 c2 c3 show ?thesis by (intro conjI)
qed

text \<open>
  What the fallback does reject, in either mode: a line whose normalized prefix as a whole is
  in the group-speaker set, the generic-role set or the group-indicator set, or of which a
  single word after apostrophe removal is in the group-indicator set. Such a line adds no
  character to the current scene and no word count.
\<close>

lemma fallback_rejects:
  assumes "fallback_rejected (py_strip raw)"
  shows "fallback_path (py_strip raw) = None
    \<and> (reaches_fallback (py_strip raw) \<longrightarrow> process_line_with name_map st raw = st)
    \<and> (reaches_fallback_wc (py_strip raw) \<longrightarrow>
         (\<exists>st'. process_line_wc_with name_map wst raw = Inr st'
            \<and> scenes st' = scenes wst \<and> current_scene st' = current_scene wst
            \<and> word_count st' = word_count wst))"
proof (intro conjI impI)
  let ?l = "py_strip raw"
  show f: "fallback_path ?l = None" by (rule fallback_rejected_None [OF assms])
  {
    assume r: "reaches_fallback ?l"
    then show "process_line_with name_map st raw = st"
      unfolding process_line_with_def reaches_fallback_def speaker_line_def Let_def
      by (auto simp: fallback_def f split: option.splits)
  }
  {
    assume r: "reaches_fallback_wc ?l"
    then show "\<exists>st'. process_line_wc_with name_map wst raw = Inr st'
            \<and> scenes st' = scenes wst \<and> current_scene st' = current_scene wst
            \<and> word_count st' = word_count wst"
      unfolding process_line_wc_with_def reaches_fallback_wc_def speaker_line_def Let_def
      by (auto simp: wc_fallback_def f split: option.splits)
  }
qed

lemma fallback_rejects_example:
  "fallback_rejected (py_strip ''the kids and monica: hi'')
   \<and> reaches_fallback (py_strip ''the kids and monica: hi'')
   \<and> reaches_fallback_wc (py_strip ''the kids and monica: hi'')
   \<and> fallback_path (py_strip ''the kids and monica: hi'') = None
   \<and> process_line_with NAME_MAP scene_init ''the kids and monica: hi'' = scene_init
   \<and> (\<exists>st'. process_line_wc_with NAME_MAP wc_init ''the kids and monica: hi'' = Inr st'
         \<and> current_scene st' = {})"
proof -
  let ?l = "''the kids and monica: hi''"
  have a: "fallback_rejected (py_strip ?l)" by code_simp
  have b: "reaches_fallback (py_strip ?l)" by code_simp
  have c: "reaches_fallback_wc (py_strip ?l)" by code_simp
  note inst = fallback_rejects [OF a, of NAME_MAP scene_init wc_init]
  from inst have d: "fallback_path (py_strip ?l) = None" by (rule conjunct1)
  from inst b have e: "process_line_with NAME_MAP scene_init ?l = scene_init" by blast
  from inst c obtain st' where "process_line_wc_with NAME_MAP wc_init ?l = Inr st'"
    "current_scene st' = current_scene wc_init" by blast
  then have g: "\<exists>st'. process_line_wc_with NAME_MAP wc_init ?l = Inr st'
         \<and> current_scene st' = {}" by (auto simp: wc_init_def)
  from a b c d e g show ?thesis by (intro conjI)
qed

text \<open>
  C2. For every episode text and all names \<open>a < b\<close>, the interaction table returned by
  \<^verbatim>\<open>parse_episode_file\<close> maps the pair \<open>(a, b)\<close> to the number of returned scenes that contain
  both names, the pair being a key exactly when that number is positive; every key of the
  table is in strictly increasing order, so a pair is never stored as \<open>(b, a)\<close>, and no key
  occurs twice. The same holds for the scenes and the table of
  \<^verbatim>\<open>parse_episode_file_with_wordcount\<close> whenever it returns.
\<close>

theorem interaction_table:
  "(a < b \<longrightarrow>
      weight_or_0 (dict_get (snd (parse_episode_file text)) (a, b))
        = scene_count (fst (parse_episode_file text)) a b
      \<and> (dict_has (snd (parse_episode_file text)) (a, b)
           \<longleftrightarrow> 0 < scene_count (fst (parse_episode_file text)) a b))
   \<and> (\<forall>(x, y) \<in> set (dict_keys (snd (parse_episode_file text))). x < y)
   \<and> distinct (dict_keys (snd (parse_episode_file text)))
   \<and> (\<forall>scs table wc. parse_episode_file_with_wordcount text = Inr (scs, table, wc) \<longrightarrow>
         (a < b \<longrightarrow>
            weight_or_0 (dict_get table (a, b)) = scene_count scs a b
            \<and> (dict_has table (a, b) \<longleftrightarrow> 0 < scene_count scs a b))
         \<and> (\<forall>(x, y) \<in> set (dict_keys table). x < y)
         \<and> distinct (dict_keys table))"
proof -
  have f: "list_all finite (parse_lines_with NAME_MAP text)" by (rule parse_lines_finite)
  from count_interactions_correct [OF f, of a b]
  have basic: "(a < b \<longrightarrow>
      weight_or_0 (dict_get (snd (parse_episode_file text)) (a, b))
        = scene_count (fst (parse_episode_file text)) a b
      \<and> (dict_has (snd (parse_episode_file text)) (a, b)
           \<longleftrightarrow> 0 < scene_count (fst (parse_episode_file text)) a b))
   \<and> (\<forall>(x, y) \<in> set (dict_keys (snd (parse_episode_file text))). x < y)
   \<and> distinct (dict_keys (snd (parse_episode_file text)))"
    by (simp add: parse_episode_file_def Let_def)
  have wc: "\<forall>scs table wc. parse_episode_file_with_wordcount text = Inr (scs, table, wc) \<longrightarrow>
         (a < b \<longrightarrow>
            weight_or_0 (dict_get table (a, b)) = scene_count scs a b
            \<and> (dict_has table (a, b) \<longleftrightarrow> 0 < scene_count scs a b))
         \<and> (\<forall>(x, y) \<in> set (dict_keys table). x < y)
         \<and> distinct (dict_keys table)"
  proof (intro allI impI)
    fix scs table wc
    assume "parse_episode_file_with_wordcount text = Inr (scs, table, wc)"
    from parse_wordcount_finite [OF this]
    have fin: "list_all finite scs" and t: "table = count_interactions scs" by simp_all
    from count_interactions_correct [OF fin, of a b]
    show "(a < b \<longrightarrow>
            weight_or_0 (dict_get table (a, b)) = scene_count scs a b
            \<and> (dict_has table (a, b) \<longleftrightarrow> 0 < scene_count scs a b))
         \<and> (\<forall>(x, y) \<in> set (dict_keys table). x < y)
         \<and> distinct (dict_keys table)"
      unfolding t .
  qed
  from basic wc show ?thesis by simp
qed

theorem interaction_table_witness:
  "''Monica'' < ''Ross''
   \<and> fst (parse_episode_file
       (''[Scene: a]'' @ [CHR 0x0A] @ ''Monica: hi'' @ [CHR 0x0A] @ ''Ross: hello'' @ [CHR 0x0A] @
      ''[Scene: b]'' @ [CHR 0x0A] @ ''Ross: x'' @ [CHR 0x0A] @ ''Monica: y'' @ [CHR 0x0A] @ ''Joey: z''))
     = [{''Monica'', ''Ross''}, {''Joey'', ''Monica'', ''Ross''}]
   \<and> weight_or_0 (dict_get (snd (parse_episode_file
       (''[Scene: a]'' @ [CHR 0x0A] @ ''Monica: hi'' @ [CHR 0x0A] @ ''Ross: hello'' @ [CHR 0x0A] @
      ''[Scene: b]'' @ [CHR 0x0A] @ ''Ross: x'' @ [CHR 0x0A] @ ''Monica: y'' @ [CHR 0x0A] @ ''Joey: z''))) (''Monica'', ''Ross'')) = 2
   \<and> dict_has (snd (parse_episode_file
       (''[Scene: a]'' @ [CHR 0x0A] @ ''Monica: hi'' @ [CHR 0x0A] @ ''Ross: hello'' @ [CHR 0x0A] @
      ''[Scene: b]'' @ [CHR 0x0A] @ ''Ross: x'' @ [CHR 0x0A] @ ''Monica: y'' @ [CHR 0x0A] @ ''Joey: z''))) (''Monica'', ''Ross'')
   \<and> \<not> dict_has (snd (parse_episode_file
       (''[Scene: a]'' @ [CHR 0x0A] @ ''Monica: hi'' @ [CHR 0x0A] @ ''Ross: hello'' @ [CHR 0x0A] @
      ''[Scene: b]'' @ [CHR 0x0A] @ ''Ross: x'' @ [CHR 0x0A] @ ''Monica: y'' @ [CHR 0x0A] @ ''Joey: z''))) (''Ross'', ''Monica'')"
proof -
  let ?t = "''[Scene: a]'' @ [CHR 0x0A] @ ''Monica: hi'' @ [CHR 0x0A] @ ''Ross: hello'' @ [CHR 0x0A] @
      ''[Scene: b]'' @ [CHR 0x0A] @ ''Ross: x'' @ [CHR 0x0A] @ ''Monica: y'' @ [CHR 0x0A] @ ''Joey: z''"
  have lt: "''Monica'' < ''Ross''" by code_simp
  have sc: "fst (parse_episode_file ?t) = [{''Monica'', ''Ross''}, {''Joey'', ''Monica'', ''Ross''}]"
    by code_simp
  have n: "scene_count [{''Monica'', ''Ross''}, {''Joey'', ''Monica'', ''Ross''}] ''Monica'' ''Ross'' = 2"
    by (simp add: scene_count_def)
  note inst = interaction_table [of "''Monica''" "''Ross''" ?t, unfolded sc n]
  from inst lt have w: "weight_or_0 (dict_get (snd (parse_episode_file ?t)) (''Monica'', ''Ross'')) = 2"
    and h: "dict_has (snd (parse_episode_file ?t)) (''Monica'', ''Ross'')"
    by simp_all
  from inst have k: "\<forall>(x, y) \<in> set (dict_keys (snd (parse_episode_file ?t))). x < y"
    by simp
  have nlt: "\<not> ''Ross'' < ''Monica''" using lt by (simp add: not_less less_imp_le)
  have r: "\<not> dict_has (snd (parse_episode_file ?t)) (''Ross'', ''Monica'')"
  proof
    assume "dict_has (snd (parse_episode_file ?t)) (''Ross'', ''Monica'')"
    then have "(''Ross'', ''Monica'') \<in> set (dict_keys (snd (parse_episode_file ?t)))"
      by (simp add: dict_has_def)
    with k have "''Ross'' < ''Monica''" by blast
    with nlt show False ..
  qed
  from lt sc w h r show ?thesis by (intro conjI)
qed

section \<open>The two parse modes\<close>

text \<open>
  C1. The claim asks \<^verbatim>\<open>parse_episode_file_with_wordcount\<close> for the scene list and the
  interaction table of \<^verbatim>\<open>parse_episode_file\<close> on every text. On the one-line text
  \<^verbatim>\<open>phoebe: hi\<close> the code does not give that. The line fails the speaker pattern of either
  mode, as it has no capital first letter, and the fallback resolves it to Phoebe.
  \<^verbatim>\<open>parse_episode_file\<close> returns the scene \<open>{Phoebe}\<close>. The fallback of
  \<^verbatim>\<open>parse_episode_file_with_wordcount\<close> adds \<^verbatim>\<open>len(content)\<close> to the word count of Phoebe, and
  \<^verbatim>\<open>content\<close> is assigned only where a line has matched the speaker pattern: no line has, the
  read raises \<^verbatim>\<open>UnboundLocalError\<close>, and the call returns neither scenes nor table.
\<close>

theorem wordcount_unbound_content:
  "normal_match ''phoebe: hi'' = None
   \<and> normal_match_wc ''phoebe: hi'' = None
   \<and> fallback_path ''phoebe: hi'' = Some ''Phoebe''
   \<and> parse_episode_file ''phoebe: hi'' = ([{''Phoebe''}], [])
   \<and> parse_episode_file_with_wordcount ''phoebe: hi'' = Inl UnboundLocalError"
proof -
  have a: "normal_match ''phoebe: hi'' = None" by code_simp
  have b: "normal_match_wc ''phoebe: hi'' = None" by code_simp
  have c: "fallback_path ''phoebe: hi'' = Some ''Phoebe''" by code_simp
  have d: "parse_episode_file ''phoebe: hi'' = ([{''Phoebe''}], [])" by code_simp
  have e: "parse_episode_file_with_wordcount ''phoebe: hi'' = Inl UnboundLocalError"
    by code_simp
  from a b c d e show ?thesis by (intro conjI)
qed

text \<open>
  The two modes also differ where their speaker patterns do: on a line whose name is followed
  by a parenthesised aside without a colon, the pattern of \<^verbatim>\<open>parse_episode_file\<close> matches and
  the speaker is added, the pattern of \<^verbatim>\<open>parse_episode_file_with_wordcount\<close> does not match.
\<close>

lemma modes_differ_on_aside:
  "parse_episode_file ''Monica (smiling) hi'' = ([{''Monica''}], [])
   \<and> parse_episode_file_with_wordcount ''Monica (smiling) hi'' = Inr ([], [], [])"
  by code_simp

text \<open>
  These are the only two differences. On a text on which
  \<^verbatim>\<open>parse_episode_file_with_wordcount\<close> returns, and in which every line that gets to the
  speaker pattern and matches the pattern of \<^verbatim>\<open>parse_episode_file\<close> also matches that of
  \<^verbatim>\<open>parse_episode_file_with_wordcount\<close>, the scene lists and the interaction tables of the
  two modes are the same.
\<close>

lemma modes_agree_on_common_lines:
  assumes "patterns_agree text"
    and "parse_episode_file_with_wordcount text = Inr (scs, table, wc)"
  shows "parse_episode_file text = (scs, table)"
proof -
  from assms(2) obtain wst where run: "run_lines_wc NAME_MAP wc_init (py_splitlines text) = Inr wst"
    and scs: "scs = scenes (wc_close_scene wst)"
    and table: "table = count_interactions scs"
    by (auto simp: parse_episode_file_with_wordcount_def Let_def split: sum.splits)
  from assms(1) have "list_all line_agrees (py_splitlines text)"
    by (simp add: patterns_agree_def)
  from run_lines_agree [OF this run]
  have "scene_part wst
      = fold (\<lambda>l st. process_line_with NAME_MAP st l) (py_splitlines text) scene_init"
    by (simp add: scene_part_init)
  then have "parse_lines_with NAME_MAP text = scenes (close_scene (scene_part wst))"
    by (simp add: parse_lines_with_def)
  also have "\<dots> = scs"
    unfolding scs scene_part_close [symmetric] by (simp add: scene_part_def)
  finally show ?thesis
    by (simp add: parse_episode_file_def table)
qed

lemma modes_agree_example:
  "patterns_agree
     (''Monica (to Ross): hi there'' @ [CHR 0x0A] @
      ''Phoebe shakes her hand and says: Phoe-Be.'' @ [CHR 0x0A] @
      ''[Scene: b]'' @ [CHR 0x0A] @ ''Chan: x'')
   \<and> parse_episode_file_with_wordcount
     (''Monica (to Ross): hi there'' @ [CHR 0x0A] @
      ''Phoebe shakes her hand and says: Phoe-Be.'' @ [CHR 0x0A] @
      ''[Scene: b]'' @ [CHR 0x0A] @ ''Chan: x'')
     = Inr ([{''Monica'', ''Phoebe''}, {''Chandler''}], [((''Monica'', ''Phoebe''), 1)],
            [(''Monica'', 2), (''Phoebe'', 8), (''Chandler'', 1)])
   \<and> parse_episode_file
     (''Monica (to Ross): hi there'' @ [CHR 0x0A] @
      ''Phoebe shakes her hand and says: Phoe-Be.'' @ [CHR 0x0A] @
      ''[Scene: b]'' @ [CHR 0x0A] @ ''Chan: x'')
     = ([{''Monica'', ''Phoebe''}, {''Chandler''}], [((''Monica'', ''Phoebe''), 1)])"
proof -
  let ?t = "''Monica (to Ross): hi there'' @ [CHR 0x0A] @
      ''Phoebe shakes her hand and says: Phoe-Be.'' @ [CHR 0x0A] @
      ''[Scene: b]'' @ [CHR 0x0A] @ ''Chan: x''"
  have a: "patterns_agree ?t" by code_simp
  have b: "parse_episode_file_with_wordcount ?t
     = Inr ([{''Monica'', ''Phoebe''}, {''Chandler''}], [((''Monica'', ''Phoebe''), 1)],
            [(''Monica'', 2), (''Phoebe'', 8), (''Chandler'', 1)])"
    by code_simp
  from a b modes_agree_on_common_lines [OF a b] show ?thesis by (intro conjI)
qed

end
